theory Spec2Isabelle
  imports Complex_Main "HOL-Library.Multiset"
begin

section \<open>JavaScript values used by the evaluation code\<close>

text \<open>
  JavaScript numbers are modelled as reals: rounding, overflow to Infinity and NaN inputs
  are outside the model.  The one place where a finite computation can leave the finite
  numbers is a division by zero, so division is modelled as a partial operation:
  \<open>js_div a b\<close> is \<open>None\<close> when the divisor is zero (JavaScript yields NaN or an
  infinity there) and the finite quotient otherwise.
\<close>

definition js_div :: "real \<Rightarrow> real \<Rightarrow> real option" where
  "js_div a b = (if b = 0 then None else Some (a / b))"

text \<open>Truthiness of a \<open>string | null\<close> value: null and the empty string are falsy.\<close>

definition truthy :: "string option \<Rightarrow> bool" where
  "truthy e = (case e of None \<Rightarrow> False | Some s \<Rightarrow> s \<noteq> [])"

text \<open>\<open>a ?? d\<close> on a \<open>number | null\<close> value.\<close>

definition nullish :: "real option \<Rightarrow> real \<Rightarrow> real" where
  "nullish a d = (case a of None \<Rightarrow> d | Some v \<Rightarrow> v)"

text \<open>
  Decimal rendering of an integer inside a template string: the digits are produced
  from the least significant one and pushed in front of those already produced.
\<close>

definition digit_char :: "nat \<Rightarrow> char" where
  "digit_char d = ''0123456789'' ! d"

fun decimal_digits :: "nat \<Rightarrow> string \<Rightarrow> string" where
  "decimal_digits n acc =
     (if n < 10 then digit_char n # acc
      else decimal_digits (n div 10) (digit_char (n mod 10) # acc))"

declare decimal_digits.simps [simp del]

definition string_of_nat :: "nat \<Rightarrow> string" where
  "string_of_nat n = decimal_digits n []"

definition js_string_of_int :: "int \<Rightarrow> string" where
  "js_string_of_int i =
     (if i < 0 then CHR ''-'' # string_of_nat (nat (- i)) else string_of_nat (nat i))"

text \<open>\<open>xs.slice(i, j)\<close> for indices \<open>0 \<le> i \<le> j\<close>.\<close>

definition slice :: "nat \<Rightarrow> nat \<Rightarrow> 'a list \<Rightarrow> 'a list" where
  "slice i j xs = take (j - i) (drop i xs)"

section \<open>RAGAS evaluation (lib/evaluation)\<close>

record RagasInput =
  question :: string
  answer :: string
  contexts :: "string list"

record RagasScores =
  faithfulness :: "real option"
  answer_relevancy :: "real option"
  context_precision :: "real option"
  error :: "string option"

record RagasEvaluationResult =
  input :: RagasInput
  scores :: RagasScores
  durationMs :: int
  passed :: bool

text \<open>\<open>RAGAS_THRESHOLDS\<close>, the target thresholds.\<close>

definition RAGAS_THRESHOLDS_faithfulness :: real where
  "RAGAS_THRESHOLDS_faithfulness = 0.85"

definition RAGAS_THRESHOLDS_answer_relevancy :: real where
  "RAGAS_THRESHOLDS_answer_relevancy = 0.80"

definition RAGAS_THRESHOLDS_context_precision :: real where
  "RAGAS_THRESHOLDS_context_precision = 0.75"

text \<open>
  \<open>runPythonScript\<close> spawns the judge process and returns a promise.  The promise is
  settled by the first of three events: the timer fires, the process closes (exit code,
  collected stdout and stderr), or spawning fails.  The event is an input of the model;
  a rejection with \<open>new Error(msg)\<close> is \<open>Inl msg\<close>.  \<open>JSON.parse\<close> is a parameter:
  \<open>None\<close> stands for a parse that throws (or yields \<open>null\<close>, on which reading
  \<open>result.error\<close> throws inside the same \<open>try\<close>).
\<close>

datatype proc_event =
    TimerFired
  | Closed "int option" string string
  | SpawnFailed string

definition string_of_code :: "int option \<Rightarrow> string" where
  "string_of_code c = (case c of None \<Rightarrow> ''null'' | Some i \<Rightarrow> js_string_of_int i)"

definition runPythonScript ::
  "(string \<Rightarrow> RagasScores option) \<Rightarrow> nat \<Rightarrow> proc_event \<Rightarrow> string + RagasScores" where
  "runPythonScript JSON_parse timeoutMs ev =
     (case ev of
        TimerFired \<Rightarrow>
          Inl (''RAGAS evaluation timed out after '' @ string_of_nat timeoutMs @ ''ms'')
      | SpawnFailed m \<Rightarrow> Inl (''Failed to spawn Python process: '' @ m)
      | Closed code stdout stderr \<Rightarrow>
          if code \<noteq> Some 0 \<and> stdout = [] then
            Inl (''RAGAS script failed with code '' @ string_of_code code @ '': '' @ stderr)
          else
            (case JSON_parse stdout of
               None \<Rightarrow> Inl (''Failed to parse RAGAS output: '' @ stdout)
             | Some result \<Rightarrow>
                 if truthy (error result) then Inl (the (error result))
                 else Inr result))"

definition checkThresholds :: "RagasScores \<Rightarrow> bool" where
  "checkThresholds s =
     (if truthy (error s) then False
      else if faithfulness s = None \<or> answer_relevancy s = None \<or> context_precision s = None
        then False
      else the (faithfulness s) \<ge> RAGAS_THRESHOLDS_faithfulness
         \<and> the (answer_relevancy s) \<ge> RAGAS_THRESHOLDS_answer_relevancy
         \<and> the (context_precision s) \<ge> RAGAS_THRESHOLDS_context_precision)"

text \<open>
  One evaluation job: the input, the two clock readings taken by \<open>Date.now()\<close> and the
  event that settles the judge process.
\<close>

record job =
  job_input :: RagasInput
  job_start :: int
  job_end :: int
  job_event :: proc_event

definition evaluateWithRagas ::
  "(string \<Rightarrow> RagasScores option) \<Rightarrow> nat \<Rightarrow> job \<Rightarrow> RagasEvaluationResult" where
  "evaluateWithRagas JSON_parse timeoutMs j =
     (case runPythonScript JSON_parse timeoutMs (job_event j) of
        Inr sc \<Rightarrow>
          \<lparr> input = job_input j, scores = sc, durationMs = job_end j - job_start j,
            passed = checkThresholds sc \<rparr>
      | Inl errorMessage \<Rightarrow>
          \<lparr> input = job_input j,
            scores = \<lparr> faithfulness = None, answer_relevancy = None,
                       context_precision = None, error = Some errorMessage \<rparr>,
            durationMs = job_end j - job_start j,
            passed = False \<rparr>)"


text \<open>
  \<open>evaluateBatch\<close>: the \<open>for\<close> loop over batches of \<open>concurrency\<close> inputs.
  \<open>Promise.all\<close> returns the results of a batch in the order of the batch, whatever the
  order in which the evaluations settle, so one batch is a \<open>map\<close>.  The loop does not
  terminate when \<open>concurrency\<close> is 0 and the input is non-empty, hence the option
  type: \<open>None\<close> is a run that never returns.
\<close>

partial_function (option) evaluateBatch_loop ::
  "(job \<Rightarrow> RagasEvaluationResult) \<Rightarrow> nat \<Rightarrow> job list \<Rightarrow> nat \<Rightarrow>
     RagasEvaluationResult list \<Rightarrow> RagasEvaluationResult list option" where
  "evaluateBatch_loop ev concurrency inputs i results =
     (if i < length inputs then
        evaluateBatch_loop ev concurrency inputs (i + concurrency)
          (results @ map ev (slice i (i + concurrency) inputs))
      else Some results)"

definition evaluateBatch ::
  "(string \<Rightarrow> RagasScores option) \<Rightarrow> nat \<Rightarrow> nat option \<Rightarrow> job list \<Rightarrow>
     RagasEvaluationResult list option" where
  "evaluateBatch JSON_parse timeoutMs concurrency_opt inputs =
     (let concurrency = (case concurrency_opt of None \<Rightarrow> 3 | Some c \<Rightarrow> c)
      in evaluateBatch_loop (evaluateWithRagas JSON_parse timeoutMs) concurrency inputs 0 [])"

text \<open>
  \<open>aggregateResults\<close>.  The three sums are accumulated by \<open>reduce\<close>, a left fold.
  The counts are natural numbers; \<open>failed\<close> never goes below zero since the passed
  results are among the results.
\<close>

record metric_triple =
  m_faithfulness :: real
  m_answer_relevancy :: real
  m_context_precision :: real

record average_triple =
  avg_faithfulness :: "real option"
  avg_answer_relevancy :: "real option"
  avg_context_precision :: "real option"

record aggregate =
  agg_count :: nat
  agg_passed :: nat
  agg_failed :: nat
  agg_passRate :: "real option"
  agg_averages :: average_triple

definition sum_step :: "RagasEvaluationResult \<Rightarrow> metric_triple \<Rightarrow> metric_triple" where
  "sum_step r acc =
     \<lparr> m_faithfulness = m_faithfulness acc + nullish (faithfulness (scores r)) 0,
       m_answer_relevancy = m_answer_relevancy acc + nullish (answer_relevancy (scores r)) 0,
       m_context_precision = m_context_precision acc + nullish (context_precision (scores r)) 0 \<rparr>"

definition aggregateResults :: "RagasEvaluationResult list \<Rightarrow> aggregate" where
  "aggregateResults results =
     (let validResults = filter (\<lambda>r. \<not> truthy (error (scores r))) results;
          passedResults = filter passed validResults;
          sum = fold sum_step validResults
                  \<lparr> m_faithfulness = 0, m_answer_relevancy = 0, m_context_precision = 0 \<rparr>;
          count = length validResults
      in \<lparr> agg_count = length results,
           agg_passed = length passedResults,
           agg_failed = length results - length passedResults,
           agg_passRate =
             (if count > 0 then js_div (real (length passedResults)) (real count) else Some 0),
           agg_averages =
             \<lparr> avg_faithfulness =
                 (if count > 0 then js_div (m_faithfulness sum) (real count) else Some 0),
               avg_answer_relevancy =
                 (if count > 0 then js_div (m_answer_relevancy sum) (real count) else Some 0),
               avg_context_precision =
                 (if count > 0 then js_div (m_context_precision sum) (real count) else Some 0) \<rparr> \<rparr>)"

section \<open>Ranking metrics (scripts/evaluate-search.ts)\<close>







section \<open>Hybrid search (migrate-hybrid-search SQL, lib/search.ts)\<close>

subsection \<open>PostgreSQL as seen by the two functions\<close>

text \<open>
  The SQL functions call built-in operators of PostgreSQL and of the vector extension.
  They are parameters of the model, collected in one record:
  \<^item> \<open>pg_to_tsquery w\<close> is \<open>to_tsquery('english', w)\<close>, and at the empty string the
    \<open>to_tsquery('')\<close> of the last statement; \<open>None\<close> when the call raises;
  \<^item> \<open>pg_ts_match d q\<close> is \<open>to_tsvector('english', d) @@ q\<close> for a query \<open>q\<close> that
    \<open>to_tsquery\<close> returned;
  \<^item> \<open>pg_ts_rank_cd d q\<close> is \<open>ts_rank_cd(to_tsvector('english', d), q)\<close>;
  \<^item> \<open>pg_distance e e'\<close> is the cosine distance \<open>e <=> e'\<close>;
  \<^item> \<open>pg_lower s\<close> is \<open>lower(s)\<close>, which folds the letters that the collation of the
    database knows, not only \<open>A\<close> to \<open>Z\<close>;
  \<^item> \<open>pg_is_space c\<close> tells whether the character \<open>c\<close> is in the class \<open>\s\<close> of the
    regular expressions, which has the white space of Unicode besides that of ASCII.
  Floating-point columns are reals.  A \<open>TEXT\<close> value is the list of the code points of
  its characters, so that \<open>length\<close> counts characters as the SQL \<open>length\<close> does.  The
  arguments of the two functions are not NULL: \<open>searchSegments\<close> passes a string, an
  embedding and numbers.
\<close>

type_synonym pg_text = "nat list"

datatype 'q tsquery = TsQuery 'q | TsOr "'q tsquery" "'q tsquery"

record ('e, 'q) postgres =
  pg_to_tsquery :: "pg_text \<Rightarrow> 'q option"
  pg_ts_match :: "pg_text \<Rightarrow> 'q \<Rightarrow> bool"
  pg_ts_rank_cd :: "pg_text \<Rightarrow> 'q tsquery \<Rightarrow> real"
  pg_distance :: "'e \<Rightarrow> 'e \<Rightarrow> real"
  pg_lower :: "pg_text \<Rightarrow> pg_text"
  pg_is_space :: "nat \<Rightarrow> bool"

text \<open>
  \<open>a || b\<close> on two queries matches the documents that match \<open>a\<close> or match \<open>b\<close>.
\<close>

fun tsquery_matches :: "(pg_text \<Rightarrow> 'q \<Rightarrow> bool) \<Rightarrow> pg_text \<Rightarrow> 'q tsquery \<Rightarrow> bool" where
  "tsquery_matches m d (TsQuery q) = m d q"
| "tsquery_matches m d (TsOr a b) = (tsquery_matches m d a \<or> tsquery_matches m d b)"

datatype pg_error =
    TsQueryFailed
  | LimitNegative
  | IntegerOutOfRange
  | DivisionByZero

subsection \<open>text_to_or_tsquery\<close>

text \<open>
  \<open>regexp_split_to_array(s, '\s+')\<close>: the pieces between the maximal runs of white space;
  a leading or trailing run leaves an empty piece, and the empty string gives one empty
  piece.  \<open>sp\<close> is the class \<open>\s\<close>.
\<close>

function regexp_split_ws :: "(nat \<Rightarrow> bool) \<Rightarrow> pg_text \<Rightarrow> pg_text list" where
  "regexp_split_ws sp [] = [[]]"
| "regexp_split_ws sp (c # cs) =
     (if sp c then [] # regexp_split_ws sp (dropWhile sp cs)
      else (case regexp_split_ws sp cs of
              [] \<Rightarrow> [[c]]
            | w # ws \<Rightarrow> (c # w) # ws))"
  by pat_completeness auto
termination
  by (relation "measure (\<lambda>(sp, s). length s)") (auto simp: length_dropWhile_le less_Suc_eq_le)

text \<open>
  The class \<open>[a-z0-9]\<close>: the two ranges are ranges of code points, \<open>a\<close> to \<open>z\<close> being
  97 to 122 and \<open>0\<close> to \<open>9\<close> being 48 to 57.
\<close>

definition is_lower_alnum :: "nat \<Rightarrow> bool" where
  "is_lower_alnum c = ((97 \<le> c \<and> c \<le> 122) \<or> (48 \<le> c \<and> c \<le> 57))"

text \<open>\<open>regexp_replace(word, '[^a-z0-9]', '', 'g')\<close>.\<close>

definition strip_non_alnum :: "pg_text \<Rightarrow> pg_text" where
  "strip_non_alnum word = filter is_lower_alnum word"

text \<open>The suffix \<open>:*\<close> of a prefix query: a colon (58) and an asterisk (42).\<close>

definition prefix_suffix :: pg_text where
  "prefix_suffix = [58, 42]"

text \<open>
  One round of the \<open>FOREACH\<close> loop.  \<open>tsq\<close> is \<open>None\<close> while it is NULL.  A call of
  \<open>to_tsquery\<close> that raises is caught by the \<open>EXCEPTION WHEN OTHERS\<close> handler of the
  inner block, which leaves \<open>tsq\<close> as it was.
\<close>

definition or_step ::
  "('e, 'q) postgres \<Rightarrow> pg_text \<Rightarrow> 'q tsquery option \<Rightarrow> 'q tsquery option" where
  "or_step pg word tsq =
     (if length word \<ge> 3 then
        (let word' = strip_non_alnum word in
         if length word' \<ge> 3 then
           (case pg_to_tsquery pg (word' @ prefix_suffix) of
              Some word_tsq \<Rightarrow>
                (case tsq of
                   None \<Rightarrow> Some (TsQuery word_tsq)
                 | Some t \<Rightarrow> Some (TsOr t (TsQuery word_tsq)))
            | None \<Rightarrow> tsq)
         else tsq)
      else tsq)"

definition text_to_or_tsquery :: "('e, 'q) postgres \<Rightarrow> pg_text \<Rightarrow> pg_error + 'q tsquery" where
  "text_to_or_tsquery pg query_text =
     (let words = regexp_split_ws (pg_is_space pg) (pg_lower pg query_text);
          tsq = fold (or_step pg) words None
      in case tsq of
           None \<Rightarrow>
             (case pg_to_tsquery pg [] of
                None \<Rightarrow> Inl TsQueryFailed
              | Some e \<Rightarrow> Inr (TsQuery e))
         | Some t \<Rightarrow> Inr t)"




subsection \<open>SQL operators\<close>

text \<open>
  A table or an intermediate result is a list of rows in some order; SQL fixes the order
  of a result only as far as \<open>ORDER BY\<close> says.  The operators are therefore relations
  between the input rows and a result that the executor may produce.
  \<open>sql_order_by_limit key n\<close> is \<open>ORDER BY key ASC LIMIT n\<close> (for \<open>DESC\<close> the key is
  negated), \<open>sql_limit n\<close> is \<open>LIMIT n\<close> with no \<open>ORDER BY\<close>, and \<open>sql_union\<close> is
  \<open>UNION\<close>, which removes duplicate rows.
\<close>

inductive sql_order_by_limit :: "('a \<Rightarrow> real) \<Rightarrow> nat \<Rightarrow> 'a list \<Rightarrow> 'a list \<Rightarrow> bool"
  for key :: "'a \<Rightarrow> real" and n :: nat and rows :: "'a list" where
  order_by_limit:
    "mset xs = mset rows \<Longrightarrow> sorted (map key xs) \<Longrightarrow> sql_order_by_limit key n rows (take n xs)"

inductive sql_limit :: "nat \<Rightarrow> 'a list \<Rightarrow> 'a list \<Rightarrow> bool"
  for n :: nat and rows :: "'a list" where
  limit: "mset xs = mset rows \<Longrightarrow> sql_limit n rows (take n xs)"

inductive sql_union :: "'a list \<Rightarrow> 'a list \<Rightarrow> 'a list \<Rightarrow> bool"
  for a :: "'a list" and b :: "'a list" where
  union: "distinct out \<Longrightarrow> set out = set a \<union> set b \<Longrightarrow> sql_union a b out"

text \<open>The aggregate \<open>MAX\<close>: NULL over no rows.\<close>

definition sql_max :: "real list \<Rightarrow> real option" where
  "sql_max xs = (case xs of [] \<Rightarrow> None | x # rest \<Rightarrow> Some (fold max rest x))"

text \<open>Division raises \<open>division by zero\<close> on a zero divisor.\<close>

definition pg_div :: "real \<Rightarrow> real \<Rightarrow> pg_error + real" where
  "pg_div a b = (if b = 0 then Inl DivisionByZero else Inr (a / b))"

definition coalesce :: "real option \<Rightarrow> real \<Rightarrow> real" where
  "coalesce a d = (case a of None \<Rightarrow> d | Some v \<Rightarrow> v)"

subsection \<open>Tables and rows\<close>

text \<open>
  A row of \<open>segments\<close>: the primary key \<open>id\<close>, the text, the embedding (NULL when the
  segment has none) and, in \<open>seg_cols\<close>, the columns that the search functions only pass
  through (\<open>episode_id\<close> to \<open>references\<close>).
\<close>

type_synonym uuid = nat

record ('e, 'c) segment =
  seg_id :: uuid
  seg_cols :: 'c
  seg_text :: pg_text
  seg_embedding :: "'e option"

text \<open>A row of the CTEs \<open>semantic\<close>, \<open>keyword_only\<close> and \<open>combined\<close>, and of \<open>match_segments\<close>.\<close>

record 'c candidate =
  cand_id :: uuid
  cand_cols :: 'c
  cand_text :: pg_text
  sim :: real

text \<open>A row returned by \<open>hybrid_search\<close>.\<close>

record 'c search_row =
  row_id :: uuid
  row_cols :: 'c
  row_text :: pg_text
  semantic_similarity :: real
  keyword_rank :: real
  combined_score :: real

subsection \<open>hybrid_search\<close>

text \<open>
  \<open>s.embedding <=> query_embedding\<close>, read only on rows that passed
  \<open>s.embedding IS NOT NULL\<close>.
\<close>

definition distance :: "('e, 'q) postgres \<Rightarrow> 'e \<Rightarrow> ('e, 'c) segment \<Rightarrow> real" where
  "distance pg query_embedding s = pg_distance pg (the (seg_embedding s)) query_embedding"

definition to_candidate :: "('e, 'q) postgres \<Rightarrow> 'e \<Rightarrow> ('e, 'c) segment \<Rightarrow> 'c candidate" where
  "to_candidate pg query_embedding s =
     \<lparr> cand_id = seg_id s, cand_cols = seg_cols s, cand_text = seg_text s,
       sim = 1 - distance pg query_embedding s \<rparr>"

definition kw_match :: "('e, 'q) postgres \<Rightarrow> 'q tsquery \<Rightarrow> ('e, 'c) segment \<Rightarrow> bool" where
  "kw_match pg or_tsquery s = tsquery_matches (pg_ts_match pg) (seg_text s) or_tsquery"

definition kw_rank :: "('e, 'q) postgres \<Rightarrow> 'q tsquery \<Rightarrow> ('e, 'c) segment \<Rightarrow> real" where
  "kw_rank pg or_tsquery s = pg_ts_rank_cd pg (seg_text s) or_tsquery"

text \<open>
  The first statement: \<open>SELECT MAX(ts_rank_cd(...)) INTO max_keyword_rank\<close> over the
  matching segments, then the \<open>IF\<close> that replaces NULL and 0 by 1.
\<close>

definition max_keyword_rank ::
  "('e, 'q) postgres \<Rightarrow> ('e, 'c) segment list \<Rightarrow> 'q tsquery \<Rightarrow> real" where
  "max_keyword_rank pg segments or_tsquery =
     (let m = sql_max (map (kw_rank pg or_tsquery) (filter (kw_match pg or_tsquery) segments))
      in if m = None \<or> m = Some 0 then 1 else the m)"

text \<open>The CTE \<open>keyword\<close>: id and normalized rank of every matching segment.\<close>

fun keyword_cte ::
  "('e, 'q) postgres \<Rightarrow> 'q tsquery \<Rightarrow> real \<Rightarrow> ('e, 'c) segment list \<Rightarrow> pg_error + (uuid \<times> real) list" where
  "keyword_cte pg or_tsquery mkr [] = Inr []"
| "keyword_cte pg or_tsquery mkr (s # ss) =
     (if kw_match pg or_tsquery s then
        (case pg_div (kw_rank pg or_tsquery s) mkr of
           Inl e \<Rightarrow> Inl e
         | Inr normalized_rank \<Rightarrow>
             (case keyword_cte pg or_tsquery mkr ss of
                Inl e \<Rightarrow> Inl e
              | Inr rest \<Rightarrow> Inr ((seg_id s, normalized_rank) # rest)))
      else keyword_cte pg or_tsquery mkr ss)"

text \<open>The CTE \<open>semantic\<close>: the \<open>match_count * 5\<close> nearest segments above the threshold.\<close>

definition semantic_cte ::
  "('e, 'q) postgres \<Rightarrow> ('e, 'c) segment list \<Rightarrow> 'e \<Rightarrow> int \<Rightarrow> real \<Rightarrow> 'c candidate list \<Rightarrow> bool" where
  "semantic_cte pg segments query_embedding match_count match_threshold semantic \<longleftrightarrow>
     (\<exists>segs. sql_order_by_limit (distance pg query_embedding) (nat (match_count * 5))
               (filter (\<lambda>s. seg_embedding s \<noteq> None
                            \<and> 1 - distance pg query_embedding s > match_threshold) segments)
               segs
           \<and> semantic = map (to_candidate pg query_embedding) segs)"

text \<open>
  The CTE \<open>keyword_only\<close>: up to \<open>match_count\<close> matching segments, in no stated order,
  whose id is not in \<open>semantic\<close>.
\<close>

definition keyword_only_cte ::
  "('e, 'q) postgres \<Rightarrow> ('e, 'c) segment list \<Rightarrow> 'q tsquery \<Rightarrow> 'e \<Rightarrow> int \<Rightarrow>
     'c candidate list \<Rightarrow> 'c candidate list \<Rightarrow> bool" where
  "keyword_only_cte pg segments or_tsquery query_embedding match_count semantic keyword_only \<longleftrightarrow>
     (\<exists>segs. sql_limit (nat match_count)
               (filter (\<lambda>s. seg_embedding s \<noteq> None \<and> kw_match pg or_tsquery s
                            \<and> seg_id s \<notin> set (map cand_id semantic)) segments)
               segs
           \<and> keyword_only = map (to_candidate pg query_embedding) segs)"

text \<open>
  The final \<open>SELECT\<close>: \<open>combined c LEFT JOIN keyword kw ON c.id = kw.id\<close>, with the three
  score columns.  A candidate with no row in \<open>keyword\<close> is joined with NULLs.
\<close>

definition fuse_row :: "real \<Rightarrow> real \<Rightarrow> 'c candidate \<Rightarrow> real option \<Rightarrow> 'c search_row" where
  "fuse_row semantic_weight keyword_weight c normalized_rank =
     \<lparr> row_id = cand_id c, row_cols = cand_cols c, row_text = cand_text c,
       semantic_similarity = sim c,
       keyword_rank = coalesce normalized_rank 0,
       combined_score = (sim c * semantic_weight) + (coalesce normalized_rank 0 * keyword_weight) \<rparr>"

definition left_join_keyword ::
  "real \<Rightarrow> real \<Rightarrow> 'c candidate list \<Rightarrow> (uuid \<times> real) list \<Rightarrow> 'c search_row list" where
  "left_join_keyword semantic_weight keyword_weight combined keyword =
     concat (map (\<lambda>c. case filter (\<lambda>kw. cand_id c = fst kw) keyword of
                        [] \<Rightarrow> [fuse_row semantic_weight keyword_weight c None]
                      | kws \<Rightarrow> map (\<lambda>kw. fuse_row semantic_weight keyword_weight c (Some (snd kw))) kws)
                 combined)"

text \<open>
  The query of \<open>RETURN QUERY\<close> with its intermediate results: \<open>semantic\<close> and \<open>keyword\<close>
  are the two retrieval paths, \<open>fused\<close> is the joined candidate list before
  \<open>ORDER BY combined_score DESC LIMIT match_count\<close>, and \<open>out\<close> is what is returned.
\<close>

definition hybrid_query ::
  "('e, 'q) postgres \<Rightarrow> ('e, 'c) segment list \<Rightarrow> 'q tsquery \<Rightarrow> 'e \<Rightarrow> int \<Rightarrow> real \<Rightarrow> real \<Rightarrow> real \<Rightarrow>
     'c candidate list \<Rightarrow> (uuid \<times> real) list \<Rightarrow> 'c search_row list \<Rightarrow> 'c search_row list \<Rightarrow> bool" where
  "hybrid_query pg segments or_tsquery query_embedding match_count semantic_weight keyword_weight
       match_threshold semantic keyword fused out \<longleftrightarrow>
     keyword_cte pg or_tsquery (max_keyword_rank pg segments or_tsquery) segments = Inr keyword
     \<and> semantic_cte pg segments query_embedding match_count match_threshold semantic
     \<and> (\<exists>keyword_only combined.
           keyword_only_cte pg segments or_tsquery query_embedding match_count semantic keyword_only
         \<and> sql_union semantic keyword_only combined
         \<and> fused = left_join_keyword semantic_weight keyword_weight combined keyword)
     \<and> sql_order_by_limit (\<lambda>r. - combined_score r) (nat match_count) fused out"

text \<open>
  \<open>hybrid_search\<close> relates the arguments and the table to an outcome: an error that the
  call raises, or a list of rows that it may return.  \<open>match_count\<close> is a 32-bit integer:
  \<open>match_count * 5\<close> raises when it leaves the range, and a negative \<open>LIMIT\<close> raises.
\<close>

inductive hybrid_search ::
  "('e, 'q) postgres \<Rightarrow> ('e, 'c) segment list \<Rightarrow> pg_text \<Rightarrow> 'e \<Rightarrow> int \<Rightarrow> real \<Rightarrow> real \<Rightarrow> real \<Rightarrow>
     pg_error + 'c search_row list \<Rightarrow> bool"
  for pg :: "('e, 'q) postgres" and segments :: "('e, 'c) segment list" and query_text :: pg_text
    and query_embedding :: 'e and match_count :: int and semantic_weight :: real
    and keyword_weight :: real and match_threshold :: real where
  hs_tsquery_raises:
    "text_to_or_tsquery pg query_text = Inl e \<Longrightarrow>
     hybrid_search pg segments query_text query_embedding match_count semantic_weight
       keyword_weight match_threshold (Inl e)"
| hs_out_of_range:
    "text_to_or_tsquery pg query_text = Inr or_tsquery \<Longrightarrow>
     match_count * 5 < - 2147483648 \<or> 2147483647 < match_count * 5 \<Longrightarrow>
     hybrid_search pg segments query_text query_embedding match_count semantic_weight
       keyword_weight match_threshold (Inl IntegerOutOfRange)"
| hs_limit_negative:
    "text_to_or_tsquery pg query_text = Inr or_tsquery \<Longrightarrow>
     match_count < 0 \<Longrightarrow>
     hybrid_search pg segments query_text query_embedding match_count semantic_weight
       keyword_weight match_threshold (Inl LimitNegative)"
| hs_division_raises:
    "text_to_or_tsquery pg query_text = Inr or_tsquery \<Longrightarrow>
     keyword_cte pg or_tsquery (max_keyword_rank pg segments or_tsquery) segments = Inl e \<Longrightarrow>
     hybrid_search pg segments query_text query_embedding match_count semantic_weight
       keyword_weight match_threshold (Inl e)"
| hs_rows:
    "text_to_or_tsquery pg query_text = Inr or_tsquery \<Longrightarrow>
     0 \<le> match_count \<Longrightarrow> match_count * 5 \<le> 2147483647 \<Longrightarrow>
     hybrid_query pg segments or_tsquery query_embedding match_count semantic_weight
       keyword_weight match_threshold semantic keyword fused out \<Longrightarrow>
     hybrid_search pg segments query_text query_embedding match_count semantic_weight
       keyword_weight match_threshold (Inr out)"

subsection \<open>match_segments and searchSegments\<close>

text \<open>\<open>match_segments\<close>, the semantic-only search of \<open>setup-search.sql\<close>.\<close>

inductive match_segments ::
  "('e, 'q) postgres \<Rightarrow> ('e, 'c) segment list \<Rightarrow> 'e \<Rightarrow> real \<Rightarrow> int \<Rightarrow>
     pg_error + 'c candidate list \<Rightarrow> bool"
  for pg :: "('e, 'q) postgres" and segments :: "('e, 'c) segment list"
    and query_embedding :: 'e and match_threshold :: real and match_count :: int where
  ms_limit_negative:
    "match_count < 0 \<Longrightarrow>
     match_segments pg segments query_embedding match_threshold match_count (Inl LimitNegative)"
| ms_rows:
    "0 \<le> match_count \<Longrightarrow>
     sql_order_by_limit (distance pg query_embedding) (nat match_count)
       (filter (\<lambda>s. seg_embedding s \<noteq> None
                    \<and> 1 - distance pg query_embedding s > match_threshold) segments)
       segs \<Longrightarrow>
     match_segments pg segments query_embedding match_threshold match_count
       (Inr (map (to_candidate pg query_embedding) segs))"

text \<open>\<open>haystack.includes(needle)\<close> on strings.\<close>

fun starts_with :: "'a list \<Rightarrow> 'a list \<Rightarrow> bool" where
  "starts_with s [] = True"
| "starts_with [] (p # ps) = False"
| "starts_with (c # cs) (p # ps) = (c = p \<and> starts_with cs ps)"

fun str_includes :: "'a list \<Rightarrow> 'a list \<Rightarrow> bool" where
  "str_includes [] needle = (needle = [])"
| "str_includes (c # cs) needle = (starts_with (c # cs) needle \<or> str_includes cs needle)"

text \<open>
  The answer of \<open>supabase.rpc\<close>: \<open>data\<close> (null or the rows) and \<open>error\<close> (null or an
  error object, of which the code reads the message).
\<close>

record 'row rpc_response =
  rpc_data :: "'row list option"
  rpc_error :: "string option"

datatype ('h, 'm) search_data = HybridRows "'h list" | MatchRows "'m list"

text \<open>
  \<open>searchSegments\<close>.  The first argument is the answer to the \<open>hybrid_search\<close> call, the
  second the answer that the \<open>match_segments\<close> call gets if it is made.  \<open>Inl m\<close> is
  \<open>throw new Error(m)\<close>.
\<close>

definition searchSegments ::
  "'h rpc_response \<Rightarrow> 'm rpc_response \<Rightarrow> string + ('h, 'm) search_data" where
  "searchSegments hybrid fallback =
     (case rpc_error hybrid of
        Some message \<Rightarrow>
          if str_includes message ''hybrid_search'' then
            (case rpc_error fallback of
               Some fallback_message \<Rightarrow> Inl (''Search failed: '' @ fallback_message)
             | None \<Rightarrow> Inr (MatchRows (case rpc_data fallback of None \<Rightarrow> [] | Some d \<Rightarrow> d)))
          else Inl (''Search failed: '' @ message)
      | None \<Rightarrow> Inr (HybridRows (case rpc_data hybrid of None \<Rightarrow> [] | Some d \<Rightarrow> d)))"

subsection \<open>One executor\<close>

text \<open>
  An executor that scans the table in the order of the list, sorts stably and keeps the
  first occurrence of a duplicate.  It computes one of the results that the relations
  above admit.
\<close>

definition order_by_limit_exec :: "('a \<Rightarrow> real) \<Rightarrow> nat \<Rightarrow> 'a list \<Rightarrow> 'a list" where
  "order_by_limit_exec key n rows = take n (sort_key key rows)"

definition hybrid_search_exec ::
  "('e, 'q) postgres \<Rightarrow> ('e, 'c) segment list \<Rightarrow> pg_text \<Rightarrow> 'e \<Rightarrow> int \<Rightarrow> real \<Rightarrow> real \<Rightarrow> real \<Rightarrow>
     pg_error + 'c search_row list" where
  "hybrid_search_exec pg segments query_text query_embedding match_count semantic_weight
       keyword_weight match_threshold =
     (case text_to_or_tsquery pg query_text of
        Inl e \<Rightarrow> Inl e
      | Inr or_tsquery \<Rightarrow>
          if match_count * 5 < - 2147483648 \<or> 2147483647 < match_count * 5
            then Inl IntegerOutOfRange
          else if match_count < 0 then Inl LimitNegative
          else
            (case keyword_cte pg or_tsquery (max_keyword_rank pg segments or_tsquery) segments of
               Inl e \<Rightarrow> Inl e
             | Inr keyword \<Rightarrow>
                 (let semantic =
                        map (to_candidate pg query_embedding)
                          (order_by_limit_exec (distance pg query_embedding) (nat (match_count * 5))
                             (filter (\<lambda>s. seg_embedding s \<noteq> None
                                          \<and> 1 - distance pg query_embedding s > match_threshold)
                                segments));
                      keyword_only =
                        map (to_candidate pg query_embedding)
                          (take (nat match_count)
                             (filter (\<lambda>s. seg_embedding s \<noteq> None \<and> kw_match pg or_tsquery s
                                          \<and> seg_id s \<notin> set (map cand_id semantic))
                                segments));
                      combined = remdups (semantic @ keyword_only);
                      fused = left_join_keyword semantic_weight keyword_weight combined keyword
                  in Inr (order_by_limit_exec (\<lambda>r. - combined_score r) (nat match_count) fused))))"

subsection \<open>Example data for the search functions\<close>

text \<open>The code points of a string of ASCII characters.\<close>

definition cp :: "string \<Rightarrow> pg_text" where
  "cp s = map of_char s"

text \<open>
  A small instance of the parameters: an embedding is a real number and the distance
  the absolute difference; \<open>to_tsquery\<close> drops the \<open>:*\<close> marker and fails on the word
  \<open>flow\<close>; a text matches a term that occurs in it; the rank is 2 for a text that
  mentions \<open>onboarding\<close> and 1 otherwise.  \<open>lower\<close> folds \<open>A\<close> to \<open>Z\<close> (65 to 90) and
  the capital I with a dot above (304, to 105); the white space is the space, the
  characters 9 to 13 and the em space (8195).
\<close>

definition ex_lower :: "nat \<Rightarrow> nat" where
  "ex_lower c = (if 65 \<le> c \<and> c \<le> 90 then c + 32 else if c = 304 then 105 else c)"

definition ex_space :: "nat \<Rightarrow> bool" where
  "ex_space c = (c = 32 \<or> (9 \<le> c \<and> c \<le> 13) \<or> c = 8195)"

definition ex_pg :: "(real, pg_text) postgres" where
  "ex_pg =
     \<lparr> pg_to_tsquery = (\<lambda>w. if w = cp ''flow:*'' then None
                            else Some (takeWhile (\<lambda>c. c \<noteq> 58) w)),
       pg_ts_match = (\<lambda>d q. q \<noteq> [] \<and> str_includes d q),
       pg_ts_rank_cd = (\<lambda>d q. if str_includes d (cp ''onboarding'') then 2 else 1),
       pg_distance = (\<lambda>e e'. \<bar>e - e'\<bar>),
       pg_lower = map ex_lower,
       pg_is_space = ex_space \<rparr>"

definition ex_seg :: "uuid \<Rightarrow> string \<Rightarrow> real \<Rightarrow> (real, unit) segment" where
  "ex_seg i t e = \<lparr> seg_id = i, seg_cols = (), seg_text = cp t, seg_embedding = Some e \<rparr>"

definition ex_row :: "uuid \<Rightarrow> string \<Rightarrow> real \<Rightarrow> real \<Rightarrow> real \<Rightarrow> unit search_row" where
  "ex_row i t s k c =
     \<lparr> row_id = i, row_cols = (), row_text = cp t, semantic_similarity = s, keyword_rank = k,
       combined_score = c \<rparr>"

text \<open>
  Three segments at distances 0.1, 0.2 and 0.9 from the query embedding 0; the first and
  the third mention \<open>onboarding\<close>.  And two segments that differ in their id only.
\<close>

definition ex_segments :: "(real, unit) segment list" where
  "ex_segments =
     [ex_seg 1 ''onboarding flow'' 0.1, ex_seg 2 ''growth loops'' 0.2,
      ex_seg 3 ''onboarding teams'' 0.9]"

definition ex_twins :: "(real, unit) segment list" where
  "ex_twins = [ex_seg 1 ''pricing page'' 0.5, ex_seg 2 ''pricing page'' 0.5]"

text \<open>
  A run of \<open>hybrid_search\<close> on the three segments for the query text \<open>onboarding\<close>,
  with \<open>match_count = 2\<close>, weights 0.7 and 0.3 and threshold 0: the rows of the CTE
  \<open>semantic\<close>, the joined rows and the two rows returned.
\<close>

definition ex_cands :: "unit candidate list" where
  "ex_cands =
     [\<lparr> cand_id = 1, cand_cols = (), cand_text = cp ''onboarding flow'', sim = 0.9 \<rparr>,
      \<lparr> cand_id = 2, cand_cols = (), cand_text = cp ''growth loops'', sim = 0.8 \<rparr>,
      \<lparr> cand_id = 3, cand_cols = (), cand_text = cp ''onboarding teams'', sim = 0.1 \<rparr>]"

definition ex_fused :: "unit search_row list" where
  "ex_fused =
     [ex_row 1 ''onboarding flow'' 0.9 1 0.93, ex_row 2 ''growth loops'' 0.8 0 0.56,
      ex_row 3 ''onboarding teams'' 0.1 1 0.37]"

definition ex_out :: "unit search_row list" where
  "ex_out = [ex_row 1 ''onboarding flow'' 0.9 1 0.93, ex_row 2 ''growth loops'' 0.8 0 0.56]"

text \<open>The two rows that a search for \<open>pricing\<close> over the twin segments returns.\<close>

definition ex_twin_row :: "uuid \<Rightarrow> unit search_row" where
  "ex_twin_row i = ex_row i ''pricing page'' 0.5 1 0.65"

definition ex_twin_cands :: "unit candidate list" where
  "ex_twin_cands =
     [\<lparr> cand_id = 1, cand_cols = (), cand_text = cp ''pricing page'', sim = 0.5 \<rparr>,
      \<lparr> cand_id = 2, cand_cols = (), cand_text = cp ''pricing page'', sim = 0.5 \<rparr>]"

text \<open>
  Answers of \<open>supabase.rpc\<close>: an error with a message, and the rows of a successful
  \<open>match_segments\<close> call with \<open>match_count = 2\<close> on the three segments.
\<close>

definition ex_failed :: "string \<Rightarrow> unit search_row rpc_response" where
  "ex_failed message = \<lparr> rpc_data = None, rpc_error = Some message \<rparr>"

definition ex_match_rows :: "unit candidate list" where
  "ex_match_rows =
     [\<lparr> cand_id = 1, cand_cols = (), cand_text = cp ''onboarding flow'', sim = 0.9 \<rparr>,
      \<lparr> cand_id = 2, cand_cols = (), cand_text = cp ''growth loops'', sim = 0.8 \<rparr>]"

definition ex_fallback :: "unit candidate rpc_response" where
  "ex_fallback = \<lparr> rpc_data = Some ex_match_rows, rpc_error = None \<rparr>"

subsection \<open>Example data for the evaluation code\<close>

definition ex_input :: RagasInput where
  "ex_input = \<lparr> question = ''q'', answer = ''a'', contexts = [''c''] \<rparr>"

definition ex_parse :: "string \<Rightarrow> RagasScores option" where
  "ex_parse out =
     (if out = ''ok'' then
        Some \<lparr> faithfulness = Some 0.85, answer_relevancy = Some 0.80,
               context_precision = Some 0.75, error = None \<rparr>
      else if out = ''low'' then
        Some \<lparr> faithfulness = Some 0.84, answer_relevancy = Some 0.9,
               context_precision = Some 0.9, error = None \<rparr>
      else None)"

definition ex_job :: "proc_event \<Rightarrow> job" where
  "ex_job ev = \<lparr> job_input = ex_input, job_start = 100, job_end = 250, job_event = ev \<rparr>"

definition ex_result :: "real option \<Rightarrow> string option \<Rightarrow> bool \<Rightarrow> RagasEvaluationResult" where
  "ex_result v e p =
     \<lparr> input = ex_input,
       scores = \<lparr> faithfulness = v, answer_relevancy = v, context_precision = v, error = e \<rparr>,
       durationMs = 150, passed = p \<rparr>"

section \<open>Properties of the RAGAS evaluation code\<close>

subsection \<open>Threshold gating and failed judge calls\<close>




lemma job_event_ex_job: "job_event (ex_job ev) = ev"
  by (simp add: ex_job_def)



subsection \<open>Aggregation\<close>

lemma fold_sum_step:
  "fold sum_step rs acc =
     \<lparr> m_faithfulness = m_faithfulness acc + (\<Sum>r\<leftarrow>rs. nullish (faithfulness (scores r)) 0),
       m_answer_relevancy = m_answer_relevancy acc + (\<Sum>r\<leftarrow>rs. nullish (answer_relevancy (scores r)) 0),
       m_context_precision = m_context_precision acc + (\<Sum>r\<leftarrow>rs. nullish (context_precision (scores r)) 0) \<rparr>"
  by (induction rs arbitrary: acc) (simp_all add: sum_step_def add.assoc)

text \<open>
  Claim C9.  \<open>aggregateResults\<close> averages each metric over the records whose error
  field is not set (null or the empty string, JavaScript's falsy values), a null score
  counting as 0; every average and the pass rate are 0 when no such record exists, and
  every quotient is a finite number (no division by zero).  On the empty list all
  counts and averages are 0.
\<close>

theorem aggregateResults_valid_only:
  "aggregateResults rs =
     (let valid = filter (\<lambda>r. \<not> truthy (error (scores r))) rs;
          n = length valid;
          avg = (\<lambda>sel. Some (if n = 0 then 0
                                else (\<Sum>r\<leftarrow>valid. nullish (sel (scores r)) 0) / real n))
      in \<lparr> agg_count = length rs,
           agg_passed = length (filter passed valid),
           agg_failed = length rs - length (filter passed valid),
           agg_passRate = Some (if n = 0 then 0 else real (length (filter passed valid)) / real n),
           agg_averages =
             \<lparr> avg_faithfulness = avg faithfulness,
               avg_answer_relevancy = avg answer_relevancy,
               avg_context_precision = avg context_precision \<rparr> \<rparr>)
   \<and> aggregateResults [] =
       \<lparr> agg_count = 0, agg_passed = 0, agg_failed = 0, agg_passRate = Some 0,
         agg_averages = \<lparr> avg_faithfulness = Some 0, avg_answer_relevancy = Some 0,
                          avg_context_precision = Some 0 \<rparr> \<rparr>"
  by (simp add: aggregateResults_def Let_def fold_sum_step js_div_def)

theorem aggregateResults_valid_only_witness:
  "aggregateResults [ex_result (Some 0.9) None True, ex_result None (Some ''timeout'') False,
                     ex_result (Some 0.5) None False] =
     \<lparr> agg_count = 3, agg_passed = 1, agg_failed = 2, agg_passRate = Some 0.5,
       agg_averages = \<lparr> avg_faithfulness = Some 0.7, avg_answer_relevancy = Some 0.7,
                        avg_context_precision = Some 0.7 \<rparr> \<rparr>"
  using aggregateResults_valid_only
          [of "[ex_result (Some 0.9) None True, ex_result None (Some ''timeout'') False,
                ex_result (Some 0.5) None False]"]
  by (simp add: ex_result_def truthy_def nullish_def Let_def)

subsection \<open>Batch evaluation\<close>

lemma evaluateBatch_loop_total:
  assumes "1 \<le> c"
  shows "evaluateBatch_loop ev c inputs i results = Some (results @ map ev (drop i inputs))"
proof (induction "length inputs - i" arbitrary: i results rule: less_induct)
  case less
  show ?case
  proof (cases "i < length inputs")
    case True
    with assms have "length inputs - (i + c) < length inputs - i" by simp
    from less[OF this]
    have "evaluateBatch_loop ev c inputs (i + c) (results @ map ev (slice i (i + c) inputs))
            = Some ((results @ map ev (slice i (i + c) inputs)) @ map ev (drop (i + c) inputs))" .
    moreover have "slice i (i + c) inputs @ drop (i + c) inputs = drop i inputs"
      by (simp add: slice_def add.commute[of i c] flip: drop_drop)
    then have "map ev (slice i (i + c) inputs) @ map ev (drop (i + c) inputs) = map ev (drop i inputs)"
      by (metis map_append)
    ultimately show ?thesis
      using True by (subst evaluateBatch_loop.simps) simp
  next
    case False
    then show ?thesis by (subst evaluateBatch_loop.simps) simp
  qed
qed

text \<open>
  Claim C10.  For a concurrency of at least 1 (or the default, 3) \<open>evaluateBatch\<close>
  returns, for every input list, a list of the same length whose i-th element is the
  result of \<open>evaluateWithRagas\<close> on the i-th input.  It returns in every case: a failed
  evaluation is a result record, never an exception.
\<close>

theorem evaluateBatch_order:
  assumes "concurrency_opt = None \<or> (\<exists>c. concurrency_opt = Some c \<and> 1 \<le> c)"
  shows "\<exists>rs. evaluateBatch P t concurrency_opt inputs = Some rs
            \<and> length rs = length inputs
            \<and> (\<forall>i<length inputs. rs ! i = evaluateWithRagas P t (inputs ! i))"
proof -
  from assms have "1 \<le> (case concurrency_opt of None \<Rightarrow> 3 | Some c \<Rightarrow> c)"
    by (auto split: option.splits)
  then have "evaluateBatch P t concurrency_opt inputs = Some (map (evaluateWithRagas P t) inputs)"
    by (simp add: evaluateBatch_def evaluateBatch_loop_total)
  then show ?thesis by simp
qed

theorem evaluateBatch_order_witness:
  "(Some (2::nat) = None \<or> (\<exists>c. Some (2::nat) = Some c \<and> 1 \<le> c))
   \<and> (\<exists>rs. evaluateBatch ex_parse 60000 (Some 2)
               [ex_job TimerFired, ex_job (Closed (Some 0) ''ok'' []), ex_job (SpawnFailed ''x'')]
             = Some rs
           \<and> length rs = 3
           \<and> passed (rs ! 1) \<and> \<not> passed (rs ! 0) \<and> \<not> passed (rs ! 2))"
proof -
  have h: "Some (2::nat) = None \<or> (\<exists>c. Some (2::nat) = Some c \<and> 1 \<le> c)" by simp
  from evaluateBatch_order [OF h, of ex_parse 60000
      "[ex_job TimerFired, ex_job (Closed (Some 0) ''ok'' []), ex_job (SpawnFailed ''x'')]"]
  obtain rs where rs: "evaluateBatch ex_parse 60000 (Some 2)
               [ex_job TimerFired, ex_job (Closed (Some 0) ''ok'' []), ex_job (SpawnFailed ''x'')]
             = Some rs" "length rs = 3"
     "\<forall>i<3. rs ! i = evaluateWithRagas ex_parse 60000
        ([ex_job TimerFired, ex_job (Closed (Some 0) ''ok'' []), ex_job (SpawnFailed ''x'')] ! i)"
    by auto
  from rs(3) have "rs ! 0 = evaluateWithRagas ex_parse 60000 (ex_job TimerFired)"
    "rs ! 1 = evaluateWithRagas ex_parse 60000 (ex_job (Closed (Some 0) ''ok'' []))"
    "rs ! 2 = evaluateWithRagas ex_parse 60000 (ex_job (SpawnFailed ''x''))"
    by simp_all
  then have "passed (rs ! 1) \<and> \<not> passed (rs ! 0) \<and> \<not> passed (rs ! 2)"
    by (simp add: evaluateWithRagas_def runPythonScript_def ex_parse_def job_event_ex_job truthy_def
        checkThresholds_def RAGAS_THRESHOLDS_faithfulness_def
        RAGAS_THRESHOLDS_answer_relevancy_def RAGAS_THRESHOLDS_context_precision_def)
  with rs(1,2) h show ?thesis by blast
qed

section \<open>Properties of the ranking metrics\<close>









section \<open>Properties of the lexical query\<close>














section \<open>Properties of hybrid search\<close>

subsection \<open>The SQL operators and the normalization divisor\<close>

lemma sql_order_by_limit_sorted:
  "sql_order_by_limit key n rows out \<Longrightarrow> sorted (map key out)"
  by (auto elim!: sql_order_by_limit.cases simp: sorted_wrt_take take_map[symmetric] simp del: take_map)

lemma sql_order_by_limit_length:
  "sql_order_by_limit key n rows out \<Longrightarrow> length out = min n (length rows)"
  by (auto elim!: sql_order_by_limit.cases dest: mset_eq_length simp: min.commute)

lemma sql_order_by_limit_subseteq:
  "sql_order_by_limit key n rows out \<Longrightarrow> mset out \<subseteq># mset rows"
proof (erule sql_order_by_limit.cases)
  fix xs assume "out = take n xs" "mset xs = mset rows"
  moreover have "mset (take n xs) \<subseteq># mset xs"
    by (metis append_take_drop_id mset_append mset_subset_eq_add_left)
  ultimately show ?thesis by simp
qed

lemma sql_limit_length:
  "sql_limit n rows out \<Longrightarrow> length out = min n (length rows)"
  by (auto elim!: sql_limit.cases dest: mset_eq_length simp: min.commute)

lemma sql_limit_subseteq:
  "sql_limit n rows out \<Longrightarrow> mset out \<subseteq># mset rows"
proof (erule sql_limit.cases)
  fix xs assume "out = take n xs" "mset xs = mset rows"
  moreover have "mset (take n xs) \<subseteq># mset xs"
    by (metis append_take_drop_id mset_append mset_subset_eq_add_left)
  ultimately show ?thesis by simp
qed

lemma fold_max_eq_Max: "fold max rest (x :: real) = Max (set (x # rest))"
proof (induction rest arbitrary: x)
  case Nil
  then show ?case by simp
next
  case (Cons y ys)
  have "Max (insert x (insert y (set ys))) = max x (Max (insert y (set ys)))"
    by (rule Max_insert) simp_all
  also have "\<dots> = Max (insert (max y x) (set ys))"
    by (cases "set ys = {}") (simp_all add: max.commute max.left_commute max.assoc)
  finally show ?case
    by (simp add: Cons.IH)
qed

lemma sql_max_eq:
  "sql_max xs = (if xs = [] then None else Some (Max (set xs)))"
  by (cases xs) (simp_all add: sql_max_def fold_max_eq_Max del: Max_insert)

lemma max_keyword_rank_nonzero: "max_keyword_rank pg segments q \<noteq> 0"
  by (auto simp: max_keyword_rank_def Let_def)

lemma keyword_cte_eq:
  "mkr \<noteq> 0 \<Longrightarrow>
   keyword_cte pg q mkr segs =
     Inr (map (\<lambda>s. (seg_id s, kw_rank pg q s / mkr)) (filter (kw_match pg q) segs))"
  by (induction segs) (simp_all add: pg_div_def)

lemma max_keyword_rank_ge:
  assumes "s \<in> set segments" "kw_match pg q s" "\<forall>s \<in> set segments. 0 \<le> kw_rank pg q s"
  shows "kw_rank pg q s \<le> max_keyword_rank pg segments q \<and> 0 < max_keyword_rank pg segments q"
proof -
  let ?rs = "map (kw_rank pg q) (filter (kw_match pg q) segments)"
  have mem: "kw_rank pg q s \<in> set ?rs" using assms(1,2) by auto
  have ne: "?rs \<noteq> []"
  proof
    assume "?rs = []"
    with mem show False by simp
  qed
  have le: "kw_rank pg q s \<le> Max (set ?rs)"
    using mem by (intro Max_ge) simp_all
  have nn: "0 \<le> Max (set ?rs)"
    using le assms(1,3) by force
  show ?thesis
  proof (cases "Max (set ?rs) = 0")
    case True
    then have "max_keyword_rank pg segments q = 1"
      using ne by (simp add: max_keyword_rank_def sql_max_eq Let_def)
    with le True show ?thesis by simp
  next
    case False
    then have "max_keyword_rank pg segments q = Max (set ?rs)"
      using ne by (simp add: max_keyword_rank_def sql_max_eq Let_def)
    with le nn False show ?thesis by simp
  qed
qed

text \<open>
  What \<open>ORDER BY key LIMIT n\<close> keeps: as many rows as the limit allows, every row left
  out having a key at least as large as the key of every row kept.
\<close>

lemma sql_order_by_limit_length_eq:
  assumes "sql_order_by_limit key n rows out"
  shows "length out = min n (length rows)"
  using assms
proof cases
  case (order_by_limit xs)
  from order_by_limit(2) have "length xs = length rows" by (rule mset_eq_length)
  with order_by_limit(1) show ?thesis by simp
qed

lemma sorted_take_drop:
  assumes "sorted (map key xs)" "a \<in> set (take n xs)" "b \<in> set (drop n xs)"
  shows "key a \<le> key b"
proof -
  have "map key xs = map key (take n xs) @ map key (drop n xs)"
    by (simp only: map_append[symmetric] append_take_drop_id)
  with assms(1) have "sorted (map key (take n xs) @ map key (drop n xs))" by simp
  then have "\<forall>u \<in> set (map key (take n xs)). \<forall>v \<in> set (map key (drop n xs)). u \<le> v"
    unfolding sorted_append by blast
  moreover have "key a \<in> set (map key (take n xs))" using assms(2) by (simp only: set_map) (rule imageI)
  moreover have "key b \<in> set (map key (drop n xs))" using assms(3) by (simp only: set_map) (rule imageI)
  ultimately show ?thesis by blast
qed

lemma ne_of_mem: "x \<in> set xs \<Longrightarrow> xs \<noteq> []"
  by (cases xs) simp_all

lemma set_take_drop: "set xs = set (take n xs) \<union> set (drop n xs)"
  by (simp only: set_append[symmetric] append_take_drop_id)

lemma sql_order_by_limit_rest:
  assumes ob: "sql_order_by_limit key n rows out"
    and x: "x \<in># mset rows - mset out" and y: "y \<in> set out"
  shows "key y \<le> key x"
  using ob
proof cases
  case (order_by_limit xs)
  have "mset xs = mset (take n xs) + mset (drop n xs)"
    by (simp only: mset_append[symmetric] append_take_drop_id)
  then have "mset rows - mset out = mset (drop n xs)"
    by (simp add: order_by_limit(1,2)[symmetric])
  with x have xd: "x \<in> set (drop n xs)" by simp
  from y have yt: "y \<in> set (take n xs)" by (simp add: order_by_limit(1))
  from sorted_take_drop[OF order_by_limit(3) yt xd] show ?thesis .
qed

lemma mset_eq_filter_length:
  "mset xs = mset ys \<Longrightarrow> length (filter P xs) = length (filter P ys)"
proof -
  assume "mset xs = mset ys"
  then have "filter_mset P (mset xs) = filter_mset P (mset ys)" by simp
  then have "size (filter_mset P (mset xs)) = size (filter_mset P (mset ys))" by simp
  then show ?thesis by (simp only: mset_filter[symmetric] size_mset)
qed

lemma sql_order_by_limit_absent:
  assumes ob: "sql_order_by_limit key n rows out"
    and cnt: "n \<le> length (filter (\<lambda>y. key y < key x) rows)"
  shows "x \<notin> set out"
  using ob
proof cases
  case (order_by_limit xs)
  show ?thesis
  proof
    assume "x \<in> set out"
    then have "x \<in> set (take n xs)" by (simp add: order_by_limit(1))
    then have ge: "\<forall>b \<in> set (drop n xs). key x \<le> key b"
      using sorted_take_drop[OF order_by_limit(3)] by blast
    have fd: "filter (\<lambda>y. key y < key x) (drop n xs) = []"
      using ge by (auto simp: filter_empty_conv)
    have xin: "x \<in> set (filter (\<lambda>y. \<not> key y < key x) (take n xs))"
      using \<open>x \<in> set (take n xs)\<close> by simp
    have "length (filter (\<lambda>y. key y < key x) xs)
            = length (filter (\<lambda>y. key y < key x) (take n xs @ drop n xs))"
      by (simp only: append_take_drop_id)
    also have "\<dots> = length (filter (\<lambda>y. key y < key x) (take n xs))"
      by (simp only: filter_append fd append_Nil2)
    finally have l1: "length (filter (\<lambda>y. key y < key x) xs)
                       = length (filter (\<lambda>y. key y < key x) (take n xs))" .
    have "length (filter (\<lambda>y. key y < key x) (take n xs))
            + length (filter (\<lambda>y. \<not> key y < key x) (take n xs)) = length (take n xs)"
      by (rule sum_length_filter_compl)
    moreover have "0 < length (filter (\<lambda>y. \<not> key y < key x) (take n xs))"
      using ne_of_mem[OF xin] length_greater_0_conv by blast
    ultimately have "length (filter (\<lambda>y. key y < key x) (take n xs)) < length (take n xs)"
      by linarith
    also have "\<dots> \<le> n" by simp
    finally have "length (filter (\<lambda>y. key y < key x) xs) < n" by (simp only: l1)
    moreover have "length (filter (\<lambda>y. key y < key x) xs)
                     = length (filter (\<lambda>y. key y < key x) rows)"
      by (rule mset_eq_filter_length[OF order_by_limit(2)])
    ultimately show False using cnt by simp
  qed
qed

lemma sql_order_by_limit_present:
  assumes ob: "sql_order_by_limit key n rows out"
    and x: "x \<in> set rows"
    and cnt: "length (filter (\<lambda>y. key y \<le> key x) rows) \<le> n"
  shows "x \<in> set out"
  using ob
proof cases
  case (order_by_limit xs)
  have xs: "x \<in> set xs" using x mset_eq_setD[OF order_by_limit(2)] by simp
  show ?thesis
  proof (rule ccontr)
    assume "x \<notin> set out"
    then have nt: "x \<notin> set (take n xs)" by (simp add: order_by_limit(1))
    from xs nt have xd: "x \<in> set (drop n xs)"
      using set_take_drop[of xs n] by blast
    then have nlt: "n < length xs" by (cases "n < length xs") simp_all
    have le: "\<forall>a \<in> set (take n xs). \<forall>b \<in> set (drop n xs). key a \<le> key b"
      using sorted_take_drop[OF order_by_limit(3)] by blast
    have ft: "filter (\<lambda>y. key y \<le> key x) (take n xs) = take n xs"
      using le xd by (simp only: filter_id_conv) blast
    have "x \<in> set (filter (\<lambda>y. key y \<le> key x) (drop n xs))"
      using xd by simp
    then have "filter (\<lambda>y. key y \<le> key x) (drop n xs) \<noteq> []"
      by (rule ne_of_mem)
    then have pos: "0 < length (filter (\<lambda>y. key y \<le> key x) (drop n xs))"
      using length_greater_0_conv by blast
    have "length (filter (\<lambda>y. key y \<le> key x) xs)
            = length (filter (\<lambda>y. key y \<le> key x) (take n xs @ drop n xs))"
      by (simp only: append_take_drop_id)
    also have "\<dots> = length (take n xs) + length (filter (\<lambda>y. key y \<le> key x) (drop n xs))"
      by (simp only: filter_append length_append ft)
    also have "length (take n xs) = n" using nlt by simp
    finally have "n < length (filter (\<lambda>y. key y \<le> key x) xs)" using pos by linarith
    moreover have "length (filter (\<lambda>y. key y \<le> key x) xs)
                     = length (filter (\<lambda>y. key y \<le> key x) rows)"
      by (rule mset_eq_filter_length[OF order_by_limit(2)])
    ultimately show False using cnt by simp
  qed
qed

subsection \<open>The intermediate results of hybrid_search\<close>

lemma subseteq_mset_setD: "mset xs \<subseteq># mset ys \<Longrightarrow> x \<in> set xs \<Longrightarrow> x \<in> set ys"
  using set_mset_mono[of "mset xs" "mset ys"] by auto

lemma left_join_keyword_row:
  assumes "r \<in> set (left_join_keyword sw kw comb kwl)"
  shows "\<exists>c \<in> set comb.
           (filter (\<lambda>k. cand_id c = fst k) kwl = [] \<and> r = fuse_row sw kw c None)
         \<or> (\<exists>k \<in> set kwl. cand_id c = fst k \<and> r = fuse_row sw kw c (Some (snd k)))"
proof -
  from assms obtain c where c: "c \<in> set comb"
    and r: "r \<in> set (case filter (\<lambda>k. cand_id c = fst k) kwl of
                        [] \<Rightarrow> [fuse_row sw kw c None]
                      | kws \<Rightarrow> map (\<lambda>k. fuse_row sw kw c (Some (snd k))) kws)"
    by (auto simp: left_join_keyword_def)
  show ?thesis
  proof (cases "filter (\<lambda>k. cand_id c = fst k) kwl")
    case Nil
    with r c show ?thesis by auto
  next
    case (Cons k ks)
    with r have "r \<in> (\<lambda>k. fuse_row sw kw c (Some (snd k))) ` set (filter (\<lambda>k. cand_id c = fst k) kwl)"
      by simp
    then obtain k' where "k' \<in> set (filter (\<lambda>k. cand_id c = fst k) kwl)"
      "r = fuse_row sw kw c (Some (snd k'))"
      by blast
    then have "k' \<in> set kwl \<and> cand_id c = fst k' \<and> r = fuse_row sw kw c (Some (snd k'))"
      by simp
    with c show ?thesis by blast
  qed
qed

lemma semantic_cte_segs:
  assumes "semantic_cte pg segments qe mc thr sem"
  obtains segs where "sem = map (to_candidate pg qe) segs"
    "mset segs \<subseteq># mset (filter (\<lambda>s. seg_embedding s \<noteq> None \<and> 1 - distance pg qe s > thr) segments)"
    "sorted (map (distance pg qe) segs)" "length segs \<le> nat (mc * 5)"
proof -
  from assms obtain segs where
    ob: "sql_order_by_limit (distance pg qe) (nat (mc * 5))
               (filter (\<lambda>s. seg_embedding s \<noteq> None \<and> 1 - distance pg qe s > thr) segments) segs"
    and sem: "sem = map (to_candidate pg qe) segs"
    unfolding semantic_cte_def by blast
  have "length segs \<le> nat (mc * 5)"
    using sql_order_by_limit_length[OF ob] by simp
  with sem sql_order_by_limit_subseteq[OF ob] sql_order_by_limit_sorted[OF ob] that
  show thesis by blast
qed

lemma keyword_only_cte_segs:
  assumes "keyword_only_cte pg segments q qe mc sem kwo"
  obtains segs where "kwo = map (to_candidate pg qe) segs"
    "mset segs \<subseteq># mset (filter (\<lambda>s. seg_embedding s \<noteq> None \<and> kw_match pg q s
                                     \<and> seg_id s \<notin> set (map cand_id sem)) segments)"
    "length segs \<le> nat mc"
proof -
  from assms obtain segs where
    ob: "sql_limit (nat mc)
               (filter (\<lambda>s. seg_embedding s \<noteq> None \<and> kw_match pg q s
                                     \<and> seg_id s \<notin> set (map cand_id sem)) segments) segs"
    and kwo: "kwo = map (to_candidate pg qe) segs"
    unfolding keyword_only_cte_def by blast
  have "length segs \<le> nat mc"
    using sql_limit_length[OF ob] by simp
  with kwo sql_limit_subseteq[OF ob] that
  show thesis by blast
qed

lemma combined_candidate_segment:
  assumes sem: "semantic_cte pg segments qe mc thr sem"
    and kwo: "keyword_only_cte pg segments q qe mc sem kwo"
    and un: "sql_union sem kwo comb"
    and c: "c \<in> set comb"
  shows "\<exists>s \<in> set segments. c = to_candidate pg qe s \<and> seg_embedding s \<noteq> None"
proof -
  from un have "set comb = set sem \<union> set kwo" by (auto elim: sql_union.cases)
  with c consider "c \<in> set sem" | "c \<in> set kwo" by auto
  then show ?thesis
  proof cases
    case 1
    from sem obtain segs where segs: "sem = map (to_candidate pg qe) segs"
      "mset segs \<subseteq># mset (filter (\<lambda>s. seg_embedding s \<noteq> None \<and> 1 - distance pg qe s > thr) segments)"
      by (rule semantic_cte_segs)
    from 1 segs(1) obtain s where s: "s \<in> set segs" "c = to_candidate pg qe s" by auto
    from subseteq_mset_setD[OF segs(2) s(1)] s(2) show ?thesis by auto
  next
    case 2
    from kwo obtain segs where segs: "kwo = map (to_candidate pg qe) segs"
      "mset segs \<subseteq># mset (filter (\<lambda>s. seg_embedding s \<noteq> None \<and> kw_match pg q s
                                     \<and> seg_id s \<notin> set (map cand_id sem)) segments)"
      by (rule keyword_only_cte_segs)
    from 2 segs(1) obtain s where s: "s \<in> set segs" "c = to_candidate pg qe s" by auto
    from subseteq_mset_setD[OF segs(2) s(1)] s(2) show ?thesis by auto
  qed
qed

lemma distinct_ids_unique:
  "distinct (map seg_id segments) \<Longrightarrow> s \<in> set segments \<Longrightarrow> s' \<in> set segments \<Longrightarrow>
   seg_id s = seg_id s' \<Longrightarrow> s = s'"
  by (meson distinct_map inj_onD)

subsection \<open>A worked run\<close>

lemma sql_order_by_limitI:
  "mset xs = mset rows \<Longrightarrow> sorted (map key xs) \<Longrightarrow> out = take n xs \<Longrightarrow>
   sql_order_by_limit key n rows out"
  by (simp add: sql_order_by_limit.intros)

lemma sql_limitI:
  "mset xs = mset rows \<Longrightarrow> out = take n xs \<Longrightarrow> sql_limit n rows out"
  by (simp add: sql_limit.intros)

lemma ex_tsquery:
  "text_to_or_tsquery ex_pg (cp ''onboarding'') = Inr (TsQuery (cp ''onboarding''))"
  by (simp add: text_to_or_tsquery_def ex_lower_def ex_space_def cp_def prefix_suffix_def or_step_def
      strip_non_alnum_def is_lower_alnum_def ex_pg_def)

lemma starts_with_cp: "starts_with (cp s) (cp p) = starts_with s p"
  by (induction s p rule: starts_with.induct) (simp_all add: cp_def)

lemma str_includes_cp: "str_includes (cp s) (cp p) = str_includes s p"
proof (induction s)
  case Nil
  then show ?case by (simp add: cp_def)
next
  case (Cons c cs)
  have "str_includes (cp (c # cs)) (cp p)
          = (starts_with (cp (c # cs)) (cp p) \<or> str_includes (cp cs) (cp p))"
    by (simp add: cp_def)
  then show ?case by (simp add: starts_with_cp Cons.IH)
qed

lemma cp_eq_Nil: "cp s = [] \<longleftrightarrow> s = []"
  by (simp add: cp_def)

lemma ex_kw_match:
  "kw_match ex_pg (TsQuery (cp q)) (ex_seg i t e) = (q \<noteq> [] \<and> str_includes t q)"
  by (simp add: kw_match_def ex_pg_def ex_seg_def str_includes_cp cp_eq_Nil)

lemma ex_kw_rank:
  "kw_rank ex_pg q (ex_seg i t e) = (if str_includes t ''onboarding'' then 2 else 1)"
  by (simp add: kw_rank_def ex_pg_def ex_seg_def str_includes_cp)

lemma ex_distance: "distance ex_pg 0 (ex_seg i t e) = \<bar>e\<bar>"
  by (simp add: distance_def ex_pg_def ex_seg_def)

lemma ex_seg_sel:
  "seg_id (ex_seg i t e) = i" "seg_text (ex_seg i t e) = cp t" "seg_embedding (ex_seg i t e) = Some e"
  "seg_cols (ex_seg i t e) = ()"
  by (simp_all add: ex_seg_def)

lemma ex_to_candidate:
  "to_candidate ex_pg 0 (ex_seg i t e) =
     \<lparr> cand_id = i, cand_cols = (), cand_text = cp t, sim = 1 - \<bar>e\<bar> \<rparr>"
  by (simp add: to_candidate_def ex_distance ex_seg_sel)

lemmas ex_simps = ex_kw_match ex_kw_rank ex_distance ex_seg_sel ex_to_candidate

lemma ex_mkr: "max_keyword_rank ex_pg ex_segments (TsQuery (cp ''onboarding'')) = 2"
  by (simp add: max_keyword_rank_def ex_segments_def sql_max_def ex_simps)

lemma ex_keyword:
  "keyword_cte ex_pg (TsQuery (cp ''onboarding'')) 2 ex_segments = Inr [(1, 1), (3, 1)]"
  by (simp add: ex_segments_def pg_div_def ex_simps)

lemma ex_semantic: "semantic_cte ex_pg ex_segments 0 2 0 ex_cands"
  unfolding semantic_cte_def
  by (rule exI[of _ ex_segments], rule conjI, rule sql_order_by_limitI[of ex_segments])
     (simp_all add: ex_segments_def ex_cands_def ex_simps del: not_None_eq)

lemma ex_keyword_only:
  "keyword_only_cte ex_pg ex_segments (TsQuery (cp ''onboarding'')) 0 2 ex_cands []"
  unfolding keyword_only_cte_def
  by (rule exI[of _ "[]"], rule conjI, rule sql_limitI[of "[]"])
     (simp_all add: ex_segments_def ex_cands_def ex_simps del: not_None_eq)

lemma ex_left_join: "left_join_keyword 0.7 0.3 ex_cands [(1, 1), (3, 1)] = ex_fused"
  by (simp add: left_join_keyword_def fuse_row_def coalesce_def ex_row_def ex_cands_def ex_fused_def)

lemma ex_hybrid_query:
  "hybrid_query ex_pg ex_segments (TsQuery (cp ''onboarding'')) 0 2 0.7 0.3 0
     ex_cands [(1, 1), (3, 1)] ex_fused ex_out"
  unfolding hybrid_query_def
proof (intro conjI)
  show "keyword_cte ex_pg (TsQuery (cp ''onboarding''))
     (max_keyword_rank ex_pg ex_segments (TsQuery (cp ''onboarding''))) ex_segments = Inr [(1, 1), (3, 1)]"
    by (simp only: ex_mkr ex_keyword)
  show "semantic_cte ex_pg ex_segments 0 2 0 ex_cands"
    by (rule ex_semantic)
  have "sql_union ex_cands [] ex_cands"
    by (rule sql_union.intros) (simp_all add: ex_cands_def)
  with ex_keyword_only ex_left_join
  show "\<exists>keyword_only combined.
       keyword_only_cte ex_pg ex_segments (TsQuery (cp ''onboarding'')) 0 2 ex_cands keyword_only \<and>
       sql_union ex_cands keyword_only combined \<and>
       ex_fused = left_join_keyword 0.7 0.3 combined [(1, 1), (3, 1)]"
    by metis
  show "sql_order_by_limit (\<lambda>r. - combined_score r) (nat 2) ex_fused ex_out"
    by (rule sql_order_by_limitI[of ex_fused]) (simp_all add: ex_row_def ex_fused_def ex_out_def)
qed

lemma ex_hybrid_search:
  "hybrid_search ex_pg ex_segments (cp ''onboarding'') 0 2 0.7 0.3 0 (Inr ex_out)"
  by (rule hybrid_search.hs_rows[OF ex_tsquery _ _ ex_hybrid_query]) simp_all

lemma ex_pk: "distinct (map seg_id ex_segments)"
  by (simp add: ex_segments_def ex_simps)

subsection \<open>Fused scores and ranking\<close>

lemma fused_row_segment:
  assumes hq: "hybrid_query pg segments q qe mc sw kw thr sem kwl fused out"
    and pk: "distinct (map seg_id segments)"
    and r: "r \<in> set fused"
  shows "\<exists>s \<in> set segments. \<exists>e.
            seg_id s = row_id r \<and> row_text r = seg_text s \<and> row_cols r = seg_cols s
          \<and> seg_embedding s = Some e
          \<and> semantic_similarity r = 1 - pg_distance pg e qe
          \<and> keyword_rank r =
              (if kw_match pg q s then kw_rank pg q s / max_keyword_rank pg segments q else 0)
          \<and> combined_score r = semantic_similarity r * sw + keyword_rank r * kw"
proof -
  let ?mkr = "max_keyword_rank pg segments q"
  from hq obtain kwo comb where
    kwl: "keyword_cte pg q ?mkr segments = Inr kwl"
    and sem: "semantic_cte pg segments qe mc thr sem"
    and kwo: "keyword_only_cte pg segments q qe mc sem kwo"
    and un: "sql_union sem kwo comb"
    and fused: "fused = left_join_keyword sw kw comb kwl"
    unfolding hybrid_query_def by blast
  have kwl_eq: "kwl = map (\<lambda>s. (seg_id s, kw_rank pg q s / ?mkr)) (filter (kw_match pg q) segments)"
    using kwl by (simp add: keyword_cte_eq[OF max_keyword_rank_nonzero])
  from r fused left_join_keyword_row[of r sw kw comb kwl]
  obtain c where c: "c \<in> set comb"
    and alt: "(filter (\<lambda>k. cand_id c = fst k) kwl = [] \<and> r = fuse_row sw kw c None)
         \<or> (\<exists>k \<in> set kwl. cand_id c = fst k \<and> r = fuse_row sw kw c (Some (snd k)))"
    by blast
  from combined_candidate_segment[OF sem kwo un c]
  obtain s e where s: "s \<in> set segments" "c = to_candidate pg qe s" "seg_embedding s = Some e"
    by auto
  have cid: "cand_id c = seg_id s" and csim: "sim c = 1 - pg_distance pg e qe"
    and ctext: "cand_text c = seg_text s" and ccols: "cand_cols c = seg_cols s"
    using s(2,3) by (simp_all add: to_candidate_def distance_def)
  from alt have kr: "keyword_rank r = (if kw_match pg q s then kw_rank pg q s / ?mkr else 0)
      \<and> r = fuse_row sw kw c (if kw_match pg q s then Some (kw_rank pg q s / ?mkr) else None)"
  proof
    assume a: "filter (\<lambda>k. cand_id c = fst k) kwl = [] \<and> r = fuse_row sw kw c None"
    have "\<not> kw_match pg q s"
    proof
      assume "kw_match pg q s"
      with s(1) have "(seg_id s, kw_rank pg q s / ?mkr) \<in> set kwl"
        unfolding kwl_eq by force
      then have "(seg_id s, kw_rank pg q s / ?mkr) \<in> set (filter (\<lambda>k. cand_id c = fst k) kwl)"
        using cid by simp
      with a show False by simp
    qed
    with a show ?thesis by (simp add: fuse_row_def coalesce_def)
  next
    assume "\<exists>k \<in> set kwl. cand_id c = fst k \<and> r = fuse_row sw kw c (Some (snd k))"
    then obtain k where k: "k \<in> set kwl" "cand_id c = fst k" "r = fuse_row sw kw c (Some (snd k))"
      by blast
    from k(1) obtain s' where s': "s' \<in> set segments" "kw_match pg q s'"
      "k = (seg_id s', kw_rank pg q s' / ?mkr)"
      unfolding kwl_eq by auto
    from s'(3) k(2) cid have "seg_id s = seg_id s'" by simp
    from distinct_ids_unique[OF pk s(1) s'(1) this] have "s = s'" .
    with s' k(3) show ?thesis by (simp add: fuse_row_def coalesce_def)
  qed
  have "seg_id s = row_id r \<and> row_text r = seg_text s \<and> row_cols r = seg_cols s
          \<and> semantic_similarity r = 1 - pg_distance pg e qe
          \<and> combined_score r = semantic_similarity r * sw + keyword_rank r * kw"
    using kr cid csim ctext ccols by (simp add: fuse_row_def)
  with kr s(1,3) show ?thesis by blast
qed

lemma desc_sorted:
  "sorted (map (\<lambda>r. - f r) xs) \<Longrightarrow> sorted_wrt (\<lambda>a b. (f a :: real) \<ge> f b) xs"
  by (simp add: sorted_map)

subsection \<open>Normalization of the lexical rank\<close>

lemma normalized_rank_bounds:
  assumes "s \<in> set segments" "kw_match pg q s" "\<forall>s \<in> set segments. 0 \<le> kw_rank pg q s"
  shows "0 \<le> kw_rank pg q s / max_keyword_rank pg segments q
       \<and> kw_rank pg q s / max_keyword_rank pg segments q \<le> 1"
proof -
  from max_keyword_rank_ge[OF assms]
  have le: "kw_rank pg q s \<le> max_keyword_rank pg segments q"
    and pos: "0 < max_keyword_rank pg segments q" by simp_all
  from assms(1,3) have "0 \<le> kw_rank pg q s" by blast
  with le pos show ?thesis by simp
qed

lemma hybrid_search_no_division_by_zero:
  "\<not> hybrid_search pg segments query_text qe mc sw kw thr (Inl DivisionByZero)"
proof
  assume "hybrid_search pg segments query_text qe mc sw kw thr (Inl DivisionByZero)"
  then show False
  proof (cases rule: hybrid_search.cases)
    case hs_tsquery_raises
    then show ?thesis
      by (auto simp: text_to_or_tsquery_def Let_def split: option.splits)
  next
    case (hs_division_raises q)
    then show ?thesis
      by (simp add: keyword_cte_eq[OF max_keyword_rank_nonzero])
  qed
qed

lemma hybrid_query_keyword_rank_bounds:
  assumes hq: "hybrid_query pg segments q qe mc sw kw thr sem kwl fused out"
    and nn: "\<forall>s \<in> set segments. 0 \<le> kw_rank pg q s"
    and r: "r \<in> set out"
  shows "0 \<le> keyword_rank r \<and> keyword_rank r \<le> 1"
proof -
  let ?mkr = "max_keyword_rank pg segments q"
  from hq obtain comb where
    kwl: "keyword_cte pg q ?mkr segments = Inr kwl"
    and fused: "fused = left_join_keyword sw kw comb kwl"
    and ob: "sql_order_by_limit (\<lambda>r. - combined_score r) (nat mc) fused out"
    unfolding hybrid_query_def by blast
  have kwl_eq: "kwl = map (\<lambda>s. (seg_id s, kw_rank pg q s / ?mkr)) (filter (kw_match pg q) segments)"
    using kwl by (simp add: keyword_cte_eq[OF max_keyword_rank_nonzero])
  from r have "r \<in> set fused"
    using subseteq_mset_setD[OF sql_order_by_limit_subseteq[OF ob]] by blast
  with fused left_join_keyword_row[of r sw kw comb kwl]
  obtain c where "r = fuse_row sw kw c None
         \<or> (\<exists>k \<in> set kwl. cand_id c = fst k \<and> r = fuse_row sw kw c (Some (snd k)))"
    by blast
  then show ?thesis
  proof
    assume "r = fuse_row sw kw c None"
    then show ?thesis by (simp add: fuse_row_def coalesce_def)
  next
    assume "\<exists>k \<in> set kwl. cand_id c = fst k \<and> r = fuse_row sw kw c (Some (snd k))"
    then obtain k where k: "k \<in> set kwl" "r = fuse_row sw kw c (Some (snd k))" by blast
    from k(1) obtain s where s: "s \<in> set segments" "kw_match pg q s"
      "snd k = kw_rank pg q s / ?mkr"
      unfolding kwl_eq by auto
    from normalized_rank_bounds[OF s(1,2) nn] s(3) k(2)
    show ?thesis by (simp add: fuse_row_def coalesce_def)
  qed
qed

text \<open>
  Claim C5.  The divisor \<open>max_keyword_rank\<close> is never 0: it is 1 when no segment matches
  and when the largest rank of the matching segments is 0, and that largest rank
  otherwise.  The CTE \<open>keyword\<close> divides the rank of every matching segment by it and
  never raises; \<open>hybrid_search\<close> never raises a division by zero.  When \<open>ts_rank_cd\<close>
  is not negative on the table, as PostgreSQL documents it, every normalized rank and
  every lexical score of a returned row lies between 0 and 1.
\<close>

theorem keyword_rank_normalized:
  "max_keyword_rank pg segments q \<noteq> 0
   \<and> (filter (kw_match pg q) segments = [] \<longrightarrow> max_keyword_rank pg segments q = 1)
   \<and> (filter (kw_match pg q) segments \<noteq> [] \<longrightarrow>
        max_keyword_rank pg segments q =
          (if Max (kw_rank pg q ` set (filter (kw_match pg q) segments)) = 0 then 1
           else Max (kw_rank pg q ` set (filter (kw_match pg q) segments))))
   \<and> keyword_cte pg q (max_keyword_rank pg segments q) segments =
        Inr (map (\<lambda>s. (seg_id s, kw_rank pg q s / max_keyword_rank pg segments q))
               (filter (kw_match pg q) segments))
   \<and> ((\<forall>s \<in> set segments. 0 \<le> kw_rank pg q s) \<longrightarrow>
        (\<forall>s \<in> set segments. kw_match pg q s \<longrightarrow>
           0 \<le> kw_rank pg q s / max_keyword_rank pg segments q
         \<and> kw_rank pg q s / max_keyword_rank pg segments q \<le> 1))
   \<and> \<not> hybrid_search pg segments query_text qe mc sw kw thr (Inl DivisionByZero)
   \<and> ((\<forall>s \<in> set segments. 0 \<le> kw_rank pg q s) \<and> text_to_or_tsquery pg query_text = Inr q \<longrightarrow>
        (\<forall>out. hybrid_search pg segments query_text qe mc sw kw thr (Inr out) \<longrightarrow>
           (\<forall>r \<in> set out. 0 \<le> keyword_rank r \<and> keyword_rank r \<le> 1)))"
proof (intro conjI impI allI ballI)
  show "max_keyword_rank pg segments q \<noteq> 0"
    by (rule max_keyword_rank_nonzero)
  show "max_keyword_rank pg segments q = 1" if "filter (kw_match pg q) segments = []"
    using that by (simp add: max_keyword_rank_def sql_max_eq Let_def)
  show "max_keyword_rank pg segments q =
          (if Max (kw_rank pg q ` set (filter (kw_match pg q) segments)) = 0 then 1
           else Max (kw_rank pg q ` set (filter (kw_match pg q) segments)))"
    if "filter (kw_match pg q) segments \<noteq> []"
    using that by (simp add: max_keyword_rank_def sql_max_eq Let_def)
  show "keyword_cte pg q (max_keyword_rank pg segments q) segments =
        Inr (map (\<lambda>s. (seg_id s, kw_rank pg q s / max_keyword_rank pg segments q))
               (filter (kw_match pg q) segments))"
    by (rule keyword_cte_eq[OF max_keyword_rank_nonzero])
  show "\<not> hybrid_search pg segments query_text qe mc sw kw thr (Inl DivisionByZero)"
    by (rule hybrid_search_no_division_by_zero)
next
  fix s assume "\<forall>s \<in> set segments. 0 \<le> kw_rank pg q s" "s \<in> set segments" "kw_match pg q s"
  from normalized_rank_bounds[OF this(2,3,1)]
  show "0 \<le> kw_rank pg q s / max_keyword_rank pg segments q"
    "kw_rank pg q s / max_keyword_rank pg segments q \<le> 1" by simp_all
next
  fix out r
  assume a: "(\<forall>s \<in> set segments. 0 \<le> kw_rank pg q s) \<and> text_to_or_tsquery pg query_text = Inr q"
    and hs: "hybrid_search pg segments query_text qe mc sw kw thr (Inr out)" and r: "r \<in> set out"
  from hs have "0 \<le> keyword_rank r \<and> keyword_rank r \<le> 1"
  proof (cases rule: hybrid_search.cases)
    case (hs_rows q' sem kwl fused)
    with a have "q' = q" by simp
    with hs_rows(4) have hq: "hybrid_query pg segments q qe mc sw kw thr sem kwl fused out"
      by simp
    from hybrid_query_keyword_rank_bounds[OF hq conjunct1[OF a] r] show ?thesis .
  qed
  then show "0 \<le> keyword_rank r" "keyword_rank r \<le> 1" by simp_all
qed

lemma ex_nonneg: "\<forall>s \<in> set ex_segments. 0 \<le> kw_rank ex_pg q s"
  by (simp add: ex_segments_def ex_simps)

theorem keyword_rank_normalized_witness:
  "max_keyword_rank ex_pg ex_segments (TsQuery (cp ''onboarding'')) = 2
   \<and> max_keyword_rank ex_pg ex_segments (TsQuery (cp ''zebra'')) = 1
   \<and> keyword_cte ex_pg (TsQuery (cp ''onboarding''))
        (max_keyword_rank ex_pg ex_segments (TsQuery (cp ''onboarding''))) ex_segments
      = Inr [(1, 1), (3, 1)]
   \<and> 0 \<le> keyword_rank (ex_out ! 0) \<and> keyword_rank (ex_out ! 0) \<le> 1"
proof -
  note w = keyword_rank_normalized [of ex_pg ex_segments "TsQuery (cp ''onboarding'')"
              "cp ''onboarding''" 0 2 "0.7" "0.3" 0]
  note z = keyword_rank_normalized [of ex_pg ex_segments "TsQuery (cp ''zebra'')"
              "cp ''zebra''" 0 2 "0.7" "0.3" 0]
  have m: "filter (kw_match ex_pg (TsQuery (cp ''onboarding''))) ex_segments
            = [ex_seg 1 ''onboarding flow'' 0.1, ex_seg 3 ''onboarding teams'' 0.9]"
    by (simp add: ex_segments_def ex_simps)
  have "filter (kw_match ex_pg (TsQuery (cp ''zebra''))) ex_segments = []"
    by (simp add: ex_segments_def ex_simps)
  with z have z1: "max_keyword_rank ex_pg ex_segments (TsQuery (cp ''zebra'')) = 1" by blast
  from w m have w1: "max_keyword_rank ex_pg ex_segments (TsQuery (cp ''onboarding'')) = 2"
    by (simp add: ex_simps)
  from w m w1 have w2: "keyword_cte ex_pg (TsQuery (cp ''onboarding''))
        (max_keyword_rank ex_pg ex_segments (TsQuery (cp ''onboarding''))) ex_segments
      = Inr [(1, 1), (3, 1)]"
    by (simp add: ex_simps)
  have "ex_out ! 0 \<in> set ex_out" by (simp add: ex_out_def)
  with w ex_nonneg ex_tsquery ex_hybrid_search
  have "0 \<le> keyword_rank (ex_out ! 0) \<and> keyword_rank (ex_out ! 0) \<le> 1"
    by blast
  with z1 w1 w2 show ?thesis by blast
qed

subsection \<open>Candidates with equal fused scores\<close>

lemma sql_order_by_limit_swap:
  assumes ob: "sql_order_by_limit key n rows out"
    and i: "i < length out" and j: "j < length out"
    and eq: "key (out ! i) = key (out ! j)"
  shows "sql_order_by_limit key n rows (out[i := out ! j, j := out ! i])"
  using ob
proof (cases rule: sql_order_by_limit.cases)
  case (order_by_limit xs)
  from i j order_by_limit(1) have ixs: "i < length xs" "j < length xs" "i < n" "j < n"
    by simp_all
  then have nth: "out ! i = xs ! i" "out ! j = xs ! j"
    using order_by_limit(1) by simp_all
  let ?xs' = "xs[i := xs ! j, j := xs ! i]"
  have perm: "mset ?xs' = mset rows"
    using mset_swap[OF ixs(2,1)] order_by_limit(2) by simp
  have "map key ?xs' = (map key xs)[i := key (xs ! j), j := key (xs ! i)]"
    by (simp add: map_update)
  also have "\<dots> = map key xs"
  proof -
    have a: "key (xs ! j) = map key xs ! i" "key (xs ! i) = map key xs ! j"
      using eq nth ixs(1,2) by simp_all
    show ?thesis unfolding a by (simp only: list_update_id)
  qed
  finally have srt: "sorted (map key ?xs')"
    using order_by_limit(3) by simp
  have "out[i := out ! j, j := out ! i] = take n ?xs'"
    using order_by_limit(1) nth by (simp add: take_update_swap)
  with perm srt show ?thesis
    by (simp add: sql_order_by_limit.intros)
qed

lemma hybrid_search_swap:
  assumes hs: "hybrid_search pg segments query_text qe mc sw kw thr (Inr out)"
    and i: "i < length out" and j: "j < length out"
    and eq: "combined_score (out ! i) = combined_score (out ! j)"
  shows "hybrid_search pg segments query_text qe mc sw kw thr (Inr (out[i := out ! j, j := out ! i]))"
  using hs
proof (cases rule: hybrid_search.cases)
  case (hs_rows q sem kwl fused)
  from hs_rows(4) have ob: "sql_order_by_limit (\<lambda>r. - combined_score r) (nat mc) fused out"
    unfolding hybrid_query_def by blast
  from eq have "- combined_score (out ! i) = - combined_score (out ! j)" by simp
  from sql_order_by_limit_swap[OF ob i j this] hs_rows(4)
  have "hybrid_query pg segments q qe mc sw kw thr sem kwl fused (out[i := out ! j, j := out ! i])"
    unfolding hybrid_query_def by blast
  from hybrid_search.hs_rows[OF hs_rows(1,2,3) this] show ?thesis .
qed

lemma hybrid_search_sorted:
  assumes hs: "hybrid_search pg segments query_text qe mc sw kw thr (Inr out)"
  shows "sorted_wrt (\<lambda>a b. combined_score a \<ge> combined_score b) out"
  using hs
proof (cases rule: hybrid_search.cases)
  case (hs_rows q sem kwl fused)
  from hs_rows(4) have ob: "sql_order_by_limit (\<lambda>r. - combined_score r) (nat mc) fused out"
    unfolding hybrid_query_def by blast
  from sql_order_by_limit_sorted[OF ob] show ?thesis by (rule desc_sorted)
qed

lemma ex_twins_tsquery:
  "text_to_or_tsquery ex_pg (cp ''pricing'') = Inr (TsQuery (cp ''pricing''))"
  by (simp add: text_to_or_tsquery_def ex_lower_def ex_space_def cp_def prefix_suffix_def or_step_def
      strip_non_alnum_def is_lower_alnum_def ex_pg_def)

lemma ex_twins_mkr: "max_keyword_rank ex_pg ex_twins (TsQuery (cp ''pricing'')) = 1"
  by (simp add: max_keyword_rank_def ex_twins_def sql_max_def ex_simps)

lemma ex_twins_keyword:
  "keyword_cte ex_pg (TsQuery (cp ''pricing'')) 1 ex_twins = Inr [(1, 1), (2, 1)]"
  by (simp add: ex_twins_def pg_div_def ex_simps)

lemma ex_twins_semantic: "semantic_cte ex_pg ex_twins 0 2 0 ex_twin_cands"
  unfolding semantic_cte_def
  by (rule exI[of _ ex_twins], rule conjI, rule sql_order_by_limitI[of ex_twins])
     (simp_all add: ex_twins_def ex_twin_cands_def ex_simps del: not_None_eq)

lemma ex_twins_keyword_only:
  "keyword_only_cte ex_pg ex_twins (TsQuery (cp ''pricing'')) 0 2 ex_twin_cands []"
  unfolding keyword_only_cte_def
  by (rule exI[of _ "[]"], rule conjI, rule sql_limitI[of "[]"])
     (simp_all add: ex_twins_def ex_twin_cands_def ex_simps del: not_None_eq)

lemma ex_twins_left_join:
  "left_join_keyword 0.7 0.3 ex_twin_cands [(1, 1), (2, 1)] = [ex_twin_row 1, ex_twin_row 2]"
  by (simp add: left_join_keyword_def fuse_row_def coalesce_def ex_row_def ex_twin_cands_def
      ex_twin_row_def)

lemma ex_twins_hybrid_search:
  "hybrid_search ex_pg ex_twins (cp ''pricing'') 0 2 0.7 0.3 0 (Inr [ex_twin_row 1, ex_twin_row 2])"
proof -
  have "sql_union ex_twin_cands [] ex_twin_cands"
    by (rule sql_union.intros) (simp_all add: ex_twin_cands_def)
  with ex_twins_keyword_only ex_twins_left_join
  have j: "\<exists>keyword_only combined.
       keyword_only_cte ex_pg ex_twins (TsQuery (cp ''pricing'')) 0 2 ex_twin_cands keyword_only \<and>
       sql_union ex_twin_cands keyword_only combined \<and>
       [ex_twin_row 1, ex_twin_row 2] = left_join_keyword 0.7 0.3 combined [(1, 1), (2, 1)]"
    by metis
  have o: "sql_order_by_limit (\<lambda>r. - combined_score r) (nat 2)
             [ex_twin_row 1, ex_twin_row 2] [ex_twin_row 1, ex_twin_row 2]"
    by (rule sql_order_by_limitI[of "[ex_twin_row 1, ex_twin_row 2]"])
       (simp_all add: ex_row_def ex_twin_row_def)
  have "hybrid_query ex_pg ex_twins (TsQuery (cp ''pricing'')) 0 2 0.7 0.3 0
     ex_twin_cands [(1, 1), (2, 1)] [ex_twin_row 1, ex_twin_row 2] [ex_twin_row 1, ex_twin_row 2]"
    unfolding hybrid_query_def
    using ex_twins_semantic j o by (simp only: ex_twins_mkr ex_twins_keyword)
  from hybrid_search.hs_rows[OF ex_twins_tsquery _ _ this] show ?thesis by simp
qed

text \<open>
  Claim C2, as stated, fails.  The query ends with \<open>ORDER BY combined_score DESC\<close> and
  has no second sort key.  On a table of two segments that differ in their id only, both
  rows get the fused score 0.65, and the query may return them with id 1 first or with
  id 2 first.
\<close>

theorem hybrid_search_ties_not_by_id:
  "hybrid_search ex_pg ex_twins (cp ''pricing'') 0 2 0.7 0.3 0 (Inr [ex_twin_row 1, ex_twin_row 2])
   \<and> hybrid_search ex_pg ex_twins (cp ''pricing'') 0 2 0.7 0.3 0 (Inr [ex_twin_row 2, ex_twin_row 1])
   \<and> combined_score (ex_twin_row 1) = combined_score (ex_twin_row 2)
   \<and> row_id (ex_twin_row 1) < row_id (ex_twin_row 2)"
proof -
  have "hybrid_search ex_pg ex_twins (cp ''pricing'') 0 2 0.7 0.3 0
          (Inr ([ex_twin_row 1, ex_twin_row 2][0 := [ex_twin_row 1, ex_twin_row 2] ! 1,
                                               1 := [ex_twin_row 1, ex_twin_row 2] ! 0]))"
    by (rule hybrid_search_swap[OF ex_twins_hybrid_search]) (simp_all add: ex_twin_row_def ex_row_def)
  then show ?thesis
    using ex_twins_hybrid_search by (simp add: ex_twin_row_def ex_row_def)
qed

text \<open>
  Claim C2, amended.  The rows that \<open>hybrid_search\<close> returns are in descending order of
  fused score, and two rows with equal fused score are in no particular order:
  exchanging them gives another list that the same call may return.
\<close>

theorem hybrid_search_ties_either_order:
  assumes "hybrid_search pg segments query_text qe mc sw kw thr (Inr out)"
    and "i < length out" and "j < length out"
    and "combined_score (out ! i) = combined_score (out ! j)"
  shows "sorted_wrt (\<lambda>a b. combined_score a \<ge> combined_score b) out
       \<and> hybrid_search pg segments query_text qe mc sw kw thr (Inr (out[i := out ! j, j := out ! i]))"
  using hybrid_search_sorted[OF assms(1)] hybrid_search_swap[OF assms] by simp

theorem hybrid_search_ties_either_order_witness:
  "hybrid_search ex_pg ex_twins (cp ''pricing'') 0 2 0.7 0.3 0 (Inr [ex_twin_row 1, ex_twin_row 2])
   \<and> combined_score ([ex_twin_row 1, ex_twin_row 2] ! 0)
       = combined_score ([ex_twin_row 1, ex_twin_row 2] ! 1)
   \<and> sorted_wrt (\<lambda>a b. combined_score a \<ge> combined_score b) [ex_twin_row 1, ex_twin_row 2]
   \<and> hybrid_search ex_pg ex_twins (cp ''pricing'') 0 2 0.7 0.3 0 (Inr [ex_twin_row 2, ex_twin_row 1])"
proof -
  have e: "combined_score ([ex_twin_row 1, ex_twin_row 2] ! 0)
       = combined_score ([ex_twin_row 1, ex_twin_row 2] ! 1)"
    by (simp add: ex_twin_row_def ex_row_def)
  from hybrid_search_ties_either_order [OF ex_twins_hybrid_search _ _ e]
  show ?thesis using ex_twins_hybrid_search e by simp
qed

subsection \<open>A passage found by both paths\<close>

lemma filter_singleton:
  "distinct xs \<Longrightarrow> x \<in> set xs \<Longrightarrow> P x \<Longrightarrow> (\<forall>y \<in> set xs. P y \<longrightarrow> y = x) \<Longrightarrow> filter P xs = [x]"
proof (induction xs)
  case Nil
  then show ?case by simp
next
  case (Cons a xs)
  from Cons.prems(1) have d: "distinct xs" and a: "a \<notin> set xs" by simp_all
  from Cons.prems(4) have u: "\<And>y. y \<in> set xs \<Longrightarrow> P y \<Longrightarrow> y = x" and ua: "P a \<Longrightarrow> a = x"
    by simp_all
  show ?case
  proof (cases "a = x")
    case True
    have "filter P xs = []"
      unfolding filter_empty_conv
    proof
      fix y assume y: "y \<in> set xs"
      show "\<not> P y"
      proof
        assume "P y"
        from u[OF y this] y a True show False by simp
      qed
    qed
    with True Cons.prems(3) show ?thesis by simp
  next
    case False
    with ua have npa: "\<not> P a" by blast
    from False Cons.prems(2) have "x \<in> set xs" by simp
    from Cons.IH[OF d this Cons.prems(3)] u have "filter P xs = [x]" by blast
    with npa show ?thesis by simp
  qed
qed

lemma row_id_fuse_row: "row_id (fuse_row sw kw c nr) = cand_id c"
  by (simp add: fuse_row_def)

lemma left_join_keyword_Cons:
  "left_join_keyword sw kw (c # cs) kwl =
     (case filter (\<lambda>k. cand_id c = fst k) kwl of
        [] \<Rightarrow> [fuse_row sw kw c None]
      | kws \<Rightarrow> map (\<lambda>k. fuse_row sw kw c (Some (snd k))) kws)
     @ left_join_keyword sw kw cs kwl"
  by (simp add: left_join_keyword_def)

lemma joined_rows_id:
  "r \<in> set (case filter (\<lambda>k. cand_id c = fst k) kwl of
              [] \<Rightarrow> [fuse_row sw kw c None]
            | kws \<Rightarrow> map (\<lambda>k. fuse_row sw kw c (Some (snd k))) kws)
   \<Longrightarrow> row_id r = cand_id c"
  by (cases "filter (\<lambda>k. cand_id c = fst k) kwl") (auto simp: row_id_fuse_row)

lemma filter_id_joined_rows:
  "filter (\<lambda>r. row_id r = p)
     (case filter (\<lambda>k. cand_id c = fst k) kwl of
        [] \<Rightarrow> [fuse_row sw kw c None]
      | kws \<Rightarrow> map (\<lambda>k. fuse_row sw kw c (Some (snd k))) kws)
   = (if cand_id c = p
      then (case filter (\<lambda>k. cand_id c = fst k) kwl of
              [] \<Rightarrow> [fuse_row sw kw c None]
            | kws \<Rightarrow> map (\<lambda>k. fuse_row sw kw c (Some (snd k))) kws)
      else [])"
proof (cases "cand_id c = p")
  case True
  have "\<forall>r \<in> set (case filter (\<lambda>k. cand_id c = fst k) kwl of
              [] \<Rightarrow> [fuse_row sw kw c None]
            | kws \<Rightarrow> map (\<lambda>k. fuse_row sw kw c (Some (snd k))) kws). row_id r = p"
  proof
    fix r
    assume "r \<in> set (case filter (\<lambda>k. cand_id c = fst k) kwl of
              [] \<Rightarrow> [fuse_row sw kw c None]
            | kws \<Rightarrow> map (\<lambda>k. fuse_row sw kw c (Some (snd k))) kws)"
    from joined_rows_id[OF this] True show "row_id r = p" by simp
  qed
  then show ?thesis
    by (simp only: True if_True refl filter_id_conv)
next
  case False
  have "\<forall>r \<in> set (case filter (\<lambda>k. cand_id c = fst k) kwl of
              [] \<Rightarrow> [fuse_row sw kw c None]
            | kws \<Rightarrow> map (\<lambda>k. fuse_row sw kw c (Some (snd k))) kws). \<not> row_id r = p"
  proof
    fix r
    assume "r \<in> set (case filter (\<lambda>k. cand_id c = fst k) kwl of
              [] \<Rightarrow> [fuse_row sw kw c None]
            | kws \<Rightarrow> map (\<lambda>k. fuse_row sw kw c (Some (snd k))) kws)"
    from joined_rows_id[OF this] False show "\<not> row_id r = p" by simp
  qed
  then show ?thesis
    by (simp only: False if_False filter_empty_conv)
qed

lemma filter_concat_map_if:
  assumes "\<And>x. filter P (g x) = (if Q x then g x else [])"
  shows "filter P (concat (map g xs)) = concat (map g (filter Q xs))"
  by (induction xs) (simp_all add: assms)

lemma left_join_filter_id:
  "filter (\<lambda>r. row_id r = p) (left_join_keyword sw kw comb kwl)
     = left_join_keyword sw kw (filter (\<lambda>c. cand_id c = p) comb) kwl"
  unfolding left_join_keyword_def
  by (rule filter_concat_map_if[where Q = "\<lambda>c. cand_id c = p"]) (rule filter_id_joined_rows)

lemma mset_subseteq_filter_length:
  "mset xs \<subseteq># mset ys \<Longrightarrow> length (filter P xs) \<le> length (filter P ys)"
proof -
  assume "mset xs \<subseteq># mset ys"
  then have "filter_mset P (mset xs) \<subseteq># filter_mset P (mset ys)"
    by (rule multiset_filter_mono)
  then have "size (filter_mset P (mset xs)) \<le> size (filter_mset P (mset ys))"
    by (rule size_mset_mono)
  then show ?thesis
    by (simp only: mset_filter[symmetric] size_mset)
qed

lemma filter_in_singleton:
  assumes sub: "mset out \<subseteq># mset fused"
    and one: "filter P fused = [r]"
  shows "filter P out = [r] \<or> filter P out = []"
proof -
  have len: "length (filter P out) \<le> 1"
    using mset_subseteq_filter_length[OF sub, of P] by (simp add: one)
  have mem: "x = r" if "x \<in> set (filter P out)" for x
  proof -
    from that have "x \<in> set out" "P x" by simp_all
    with subseteq_mset_setD[OF sub] have "x \<in> set (filter P fused)" by simp
    then show ?thesis by (simp add: one)
  qed
  show ?thesis
  proof (cases "filter P out")
    case Nil
    then show ?thesis by simp
  next
    case (Cons x xs)
    with len have "xs = []" by simp
    moreover have "x = r" using mem[of x] Cons by simp
    ultimately show ?thesis using Cons by simp
  qed
qed


text \<open>
  Claim C3, as stated, fails.  In the worked run the segment with id 3 is a row of
  \<open>semantic\<close> (the vector path keeps \<open>match_count * 5 = 10\<close> rows) and of \<open>keyword\<close>,
  yet it is not in the returned list: with \<open>match_count = 2\<close> the final \<open>LIMIT\<close> keeps
  the two rows with the highest fused scores, and its score 0.37 is the lowest.
\<close>

theorem hybrid_search_truncates_common_passage:
  "hybrid_search ex_pg ex_segments (cp ''onboarding'') 0 2 0.7 0.3 0 (Inr ex_out)
   \<and> hybrid_query ex_pg ex_segments (TsQuery (cp ''onboarding'')) 0 2 0.7 0.3 0
       ex_cands [(1, 1), (3, 1)] ex_fused ex_out
   \<and> 3 \<in> cand_id ` set ex_cands
   \<and> 3 \<in> fst ` set [(1, 1), (3 :: nat, 1 :: real)]
   \<and> filter (\<lambda>r. row_id r = 3) ex_out = []"
proof -
  have a: "3 \<in> cand_id ` set ex_cands" by (simp add: ex_cands_def)
  have b: "3 \<in> fst ` set [(1, 1), (3 :: nat, 1 :: real)]" by simp
  have c: "filter (\<lambda>r. row_id r = 3) ex_out = []" by (simp add: ex_out_def ex_row_def)
  from ex_hybrid_search ex_hybrid_query a b c show ?thesis by (intro conjI)
qed

text \<open>
  Claim C3, amended.  A passage that is a row of both \<open>semantic\<close> and \<open>keyword\<close> appears
  exactly once among the fused candidates before the final \<open>LIMIT\<close>; this one row carries
  the similarity of its \<open>semantic\<close> row as semantic score and the normalized rank of its
  \<open>keyword\<close> row as lexical score, not the 0 that \<open>COALESCE\<close> supplies.  The returned list
  has this row once or not at all.  It has the row exactly once when at most
  \<open>match_count\<close> fused candidates have a fused score at least as high as its score (the
  row itself counted), in particular when there are at most \<open>match_count\<close> fused
  candidates; it does not have the row when at least \<open>match_count\<close> fused candidates have
  a strictly higher fused score.  \<open>id\<close> is the primary key of the table.
\<close>

theorem hybrid_query_dedup:
  assumes hq: "hybrid_query pg segments q qe mc sw kw thr sem kwl fused out"
    and pk: "distinct (map seg_id segments)"
    and ps: "p \<in> cand_id ` set sem"
    and pl: "p \<in> fst ` set kwl"
  shows "\<exists>s \<in> set segments. \<exists>r.
           seg_id s = p
         \<and> to_candidate pg qe s \<in> set sem
         \<and> (p, kw_rank pg q s / max_keyword_rank pg segments q) \<in> set kwl
         \<and> r = fuse_row sw kw (to_candidate pg qe s)
                 (Some (kw_rank pg q s / max_keyword_rank pg segments q))
         \<and> semantic_similarity r = sim (to_candidate pg qe s)
         \<and> keyword_rank r = kw_rank pg q s / max_keyword_rank pg segments q
         \<and> filter (\<lambda>r'. row_id r' = p) fused = [r]
         \<and> (filter (\<lambda>r'. row_id r' = p) out = [r] \<or> filter (\<lambda>r'. row_id r' = p) out = [])
         \<and> (length (filter (\<lambda>r'. combined_score r \<le> combined_score r') fused) \<le> nat mc
              \<longrightarrow> filter (\<lambda>r'. row_id r' = p) out = [r])
         \<and> (length fused \<le> nat mc \<longrightarrow> filter (\<lambda>r'. row_id r' = p) out = [r])
         \<and> (nat mc \<le> length (filter (\<lambda>r'. combined_score r < combined_score r') fused)
              \<longrightarrow> filter (\<lambda>r'. row_id r' = p) out = [])"
proof -
  let ?mkr = "max_keyword_rank pg segments q"
  let ?f = "\<lambda>s. (seg_id s, kw_rank pg q s / ?mkr)"
  from hq obtain kwo comb where
    kwl: "keyword_cte pg q ?mkr segments = Inr kwl"
    and sem: "semantic_cte pg segments qe mc thr sem"
    and kwo: "keyword_only_cte pg segments q qe mc sem kwo"
    and un: "sql_union sem kwo comb"
    and fused: "fused = left_join_keyword sw kw comb kwl"
    and ob: "sql_order_by_limit (\<lambda>r. - combined_score r) (nat mc) fused out"
    unfolding hybrid_query_def by blast
  have kwl_eq: "kwl = map ?f (filter (kw_match pg q) segments)"
    using kwl by (simp add: keyword_cte_eq[OF max_keyword_rank_nonzero])
  from un have comb: "distinct comb" "set comb = set sem \<union> set kwo"
    by (auto elim: sql_union.cases)
  from pl obtain s where s: "s \<in> set segments" "kw_match pg q s" "seg_id s = p"
    unfolding kwl_eq by auto
  have uniq: "s' = s" if "s' \<in> set segments" "seg_id s' = p" for s'
    using distinct_ids_unique[OF pk that(1) s(1)] that(2) s(3) by simp
  let ?c = "to_candidate pg qe s"
  let ?r = "fuse_row sw kw ?c (Some (kw_rank pg q s / ?mkr))"
  let ?P = "\<lambda>r'. row_id r' = p"
  have cand: "c = ?c" if "c \<in> set comb" "cand_id c = p" for c
  proof -
    from combined_candidate_segment[OF sem kwo un that(1)]
    obtain s' where s': "s' \<in> set segments" "c = to_candidate pg qe s'" by blast
    with that(2) have "seg_id s' = p" by (simp add: to_candidate_def)
    with uniq[OF s'(1)] s'(2) show ?thesis by simp
  qed
  from ps obtain c0 where c0: "c0 \<in> set sem" "cand_id c0 = p" by auto
  with comb(2) cand[of c0] have insem: "?c \<in> set sem" by auto
  then have incomb: "?c \<in> set comb" using comb(2) by simp
  have cid: "cand_id ?c = p" using s(3) by (simp add: to_candidate_def)
  have fc: "filter (\<lambda>c. cand_id c = p) comb = [?c]"
  proof (rule filter_singleton[where P = "\<lambda>c. cand_id c = p", OF comb(1) incomb cid])
    show "\<forall>y \<in> set comb. cand_id y = p \<longrightarrow> y = ?c" using cand by blast
  qed
  have dseg: "distinct segments" using pk by (rule distinct_map[THEN iffD1, THEN conjunct1])
  have fs: "filter (\<lambda>s'. seg_id s' = p \<and> kw_match pg q s') segments = [s]"
  proof (rule filter_singleton[where P = "\<lambda>s'. seg_id s' = p \<and> kw_match pg q s'", OF dseg s(1)])
    show "seg_id s = p \<and> kw_match pg q s" using s by simp
    show "\<forall>y \<in> set segments. seg_id y = p \<and> kw_match pg q y \<longrightarrow> y = s" using uniq by blast
  qed
  have fk: "filter (\<lambda>k. cand_id ?c = fst k) kwl = [?f s]"
  proof -
    have "filter (\<lambda>k. cand_id ?c = fst k) kwl
            = map ?f (filter (\<lambda>s'. p = seg_id s') (filter (kw_match pg q) segments))"
      unfolding kwl_eq cid by (simp add: filter_map comp_def)
    also have "filter (\<lambda>s'. p = seg_id s') (filter (kw_match pg q) segments)
            = filter (\<lambda>s'. seg_id s' = p \<and> kw_match pg q s') segments"
      by (simp add: conj_commute eq_commute)
    finally show ?thesis by (simp add: fs)
  qed
  have inkwl: "(p, kw_rank pg q s / ?mkr) \<in> set kwl"
  proof -
    have "?f s \<in> ?f ` set (filter (kw_match pg q) segments)"
      using s(1,2) by (intro imageI) simp
    then show ?thesis unfolding kwl_eq using s(3) by simp
  qed
  have ff: "filter ?P fused = [?r]"
    unfolding fused left_join_filter_id fc
    by (simp add: left_join_keyword_Cons fk left_join_keyword_def)
  have sub: "mset out \<subseteq># mset fused"
    by (rule sql_order_by_limit_subseteq[OF ob])
  have scores: "semantic_similarity ?r = sim ?c" "keyword_rank ?r = kw_rank pg q s / ?mkr"
    by (simp_all add: fuse_row_def coalesce_def)
  have alt: "filter ?P out = [?r] \<or> filter ?P out = []"
    by (rule filter_in_singleton[OF sub ff])
  have rf: "?r \<in> set fused" "row_id ?r = p"
  proof -
    have "?r \<in> set (filter ?P fused)" by (simp only: ff list.set_intros)
    then show "?r \<in> set fused" "row_id ?r = p" by simp_all
  qed
  have kept: "filter ?P out = [?r]" if "?r \<in> set out"
  proof -
    from that rf(2) have "?r \<in> set (filter ?P out)" by simp
    then have "filter ?P out \<noteq> []" by (rule ne_of_mem)
    with alt show ?thesis by blast
  qed
  have cut: "filter ?P out = []" if "?r \<notin> set out"
  proof (rule ccontr)
    assume "filter ?P out \<noteq> []"
    with alt have "filter ?P out = [?r]" by blast
    then have "?r \<in> set (filter ?P out)" by (simp only: list.set_intros)
    with that show False by simp
  qed
  have present: "filter ?P out = [?r]"
    if "length (filter (\<lambda>r'. combined_score ?r \<le> combined_score r') fused) \<le> nat mc"
  proof -
    from that
    have "length (filter (\<lambda>y. - combined_score y \<le> - combined_score ?r) fused) \<le> nat mc"
      by (simp only: neg_le_iff_le)
    from sql_order_by_limit_present[OF ob rf(1) this] show ?thesis by (rule kept)
  qed
  have all: "filter ?P out = [?r]" if "length fused \<le> nat mc"
  proof (rule present)
    have "length (filter (\<lambda>r'. combined_score ?r \<le> combined_score r') fused) \<le> length fused"
      by (rule length_filter_le)
    with that
    show "length (filter (\<lambda>r'. combined_score ?r \<le> combined_score r') fused) \<le> nat mc"
      by linarith
  qed
  have absent: "filter ?P out = []"
    if "nat mc \<le> length (filter (\<lambda>r'. combined_score ?r < combined_score r') fused)"
  proof -
    from that
    have "nat mc \<le> length (filter (\<lambda>y. - combined_score y < - combined_score ?r) fused)"
      by (simp only: neg_less_iff_less)
    from sql_order_by_limit_absent[OF ob this] show ?thesis by (rule cut)
  qed
  from s(1,3) insem inkwl scores ff alt present all absent show ?thesis by blast
qed

theorem hybrid_query_dedup_witness:
  "hybrid_query ex_pg ex_segments (TsQuery (cp ''onboarding'')) 0 2 0.7 0.3 0
       ex_cands [(1, 1), (3, 1)] ex_fused ex_out
   \<and> distinct (map seg_id ex_segments)
   \<and> 1 \<in> cand_id ` set ex_cands
   \<and> 1 \<in> fst ` set [(1, 1), (3 :: nat, 1 :: real)]
   \<and> filter (\<lambda>r. row_id r = 1) ex_fused = [ex_row 1 ''onboarding flow'' 0.9 1 0.93]
   \<and> filter (\<lambda>r. row_id r = 1) ex_out = [ex_row 1 ''onboarding flow'' 0.9 1 0.93]
   \<and> 3 \<in> cand_id ` set ex_cands
   \<and> 3 \<in> fst ` set [(1, 1), (3 :: nat, 1 :: real)]
   \<and> filter (\<lambda>r. row_id r = 3) ex_fused = [ex_row 3 ''onboarding teams'' 0.1 1 0.37]
   \<and> filter (\<lambda>r. row_id r = 3) ex_out = []"
proof -
  have a1: "1 \<in> cand_id ` set ex_cands" by (simp add: ex_cands_def)
  have b1: "1 \<in> fst ` set [(1, 1), (3 :: nat, 1 :: real)]" by simp
  have a3: "3 \<in> cand_id ` set ex_cands" by (simp add: ex_cands_def)
  have b3: "3 \<in> fst ` set [(1, 1), (3 :: nat, 1 :: real)]" by simp
  have f1: "filter (\<lambda>r. row_id r = 1) ex_fused = [ex_row 1 ''onboarding flow'' 0.9 1 0.93]"
    by (simp add: ex_fused_def ex_row_def)
  have f3: "filter (\<lambda>r. row_id r = 3) ex_fused = [ex_row 3 ''onboarding teams'' 0.1 1 0.37]"
    by (simp add: ex_fused_def ex_row_def)
  from hybrid_query_dedup [OF ex_hybrid_query ex_pk a1 b1]
  obtain r where r1: "filter (\<lambda>r'. row_id r' = 1) ex_fused = [r]"
    and k1: "length (filter (\<lambda>r'. combined_score r \<le> combined_score r') ex_fused) \<le> nat 2
              \<longrightarrow> filter (\<lambda>r'. row_id r' = 1) ex_out = [r]"
    by blast
  from r1 f1 have r: "r = ex_row 1 ''onboarding flow'' 0.9 1 0.93" by simp
  have "length (filter (\<lambda>r'. combined_score r \<le> combined_score r') ex_fused) \<le> nat 2"
    unfolding r by (simp add: ex_fused_def ex_row_def)
  with k1 have o1: "filter (\<lambda>r. row_id r = 1) ex_out = [ex_row 1 ''onboarding flow'' 0.9 1 0.93]"
    unfolding r by blast
  from hybrid_query_dedup [OF ex_hybrid_query ex_pk a3 b3]
  obtain r' where r3: "filter (\<lambda>x. row_id x = 3) ex_fused = [r']"
    and k3: "nat 2 \<le> length (filter (\<lambda>x. combined_score r' < combined_score x) ex_fused)
              \<longrightarrow> filter (\<lambda>x. row_id x = 3) ex_out = []"
    by blast
  from r3 f3 have r': "r' = ex_row 3 ''onboarding teams'' 0.1 1 0.37" by simp
  have "nat 2 \<le> length (filter (\<lambda>x. combined_score r' < combined_score x) ex_fused)"
    unfolding r' by (simp add: ex_fused_def ex_row_def)
  with k3 have o3: "filter (\<lambda>r. row_id r = 3) ex_out = []"
    by blast
  from ex_hybrid_query ex_pk a1 b1 f1 o1 a3 b3 f3 o3 show ?thesis by (intro conjI)
qed

subsection \<open>Every call has a result\<close>

text \<open>
  The operators always have a result, so a call of \<open>hybrid_search\<close> whose lexical query
  is built and whose \<open>match_count\<close> is in range returns some list of rows.
\<close>

lemma sql_order_by_limit_total: "\<exists>out. sql_order_by_limit key n rows out"
proof -
  have "sql_order_by_limit key n rows (take n (sort_key key rows))"
    by (rule sql_order_by_limit.intros) simp_all
  then show ?thesis ..
qed

lemma sql_limit_total: "\<exists>out. sql_limit n rows out"
proof -
  have "sql_limit n rows (take n rows)"
    by (rule sql_limit.intros) simp
  then show ?thesis ..
qed

lemma sql_union_total: "\<exists>out. sql_union a b out"
proof -
  have "sql_union a b (remdups (a @ b))"
    by (rule sql_union.intros) simp_all
  then show ?thesis ..
qed

lemma hybrid_query_total:
  "\<exists>sem kwl fused out. hybrid_query pg segments q qe mc sw kw thr sem kwl fused out"
proof -
  obtain kwl where kwl: "keyword_cte pg q (max_keyword_rank pg segments q) segments = Inr kwl"
    using keyword_cte_eq[OF max_keyword_rank_nonzero] by blast
  obtain segs where "sql_order_by_limit (distance pg qe) (nat (mc * 5))
               (filter (\<lambda>s. seg_embedding s \<noteq> None \<and> 1 - distance pg qe s > thr) segments) segs"
    using sql_order_by_limit_total by blast
  then have sem: "semantic_cte pg segments qe mc thr (map (to_candidate pg qe) segs)"
    unfolding semantic_cte_def by blast
  let ?sem = "map (to_candidate pg qe) segs"
  obtain segs' where "sql_limit (nat mc)
               (filter (\<lambda>s. seg_embedding s \<noteq> None \<and> kw_match pg q s
                            \<and> seg_id s \<notin> set (map cand_id ?sem)) segments) segs'"
    using sql_limit_total by blast
  then have kwo: "keyword_only_cte pg segments q qe mc ?sem (map (to_candidate pg qe) segs')"
    unfolding keyword_only_cte_def by blast
  obtain comb where un: "sql_union ?sem (map (to_candidate pg qe) segs') comb"
    using sql_union_total by blast
  obtain out where "sql_order_by_limit (\<lambda>r. - combined_score r) (nat mc)
                      (left_join_keyword sw kw comb kwl) out"
    using sql_order_by_limit_total by blast
  with kwl sem kwo un
  have "hybrid_query pg segments q qe mc sw kw thr ?sem kwl (left_join_keyword sw kw comb kwl) out"
    unfolding hybrid_query_def by blast
  then show ?thesis by blast
qed

lemma hybrid_search_returns:
  assumes "text_to_or_tsquery pg query_text = Inr q" "0 \<le> mc" "mc * 5 \<le> 2147483647"
  shows "\<exists>out. hybrid_search pg segments query_text qe mc sw kw thr (Inr out)"
proof -
  from hybrid_query_total[of pg segments q qe mc sw kw thr]
  obtain sem kwl fused out where "hybrid_query pg segments q qe mc sw kw thr sem kwl fused out"
    by blast
  from hybrid_search.hs_rows[OF assms this] show ?thesis ..
qed

text \<open>
  The executor of the definitions computes a result that \<open>hybrid_search\<close> admits, for
  every input; on the worked run it returns the two rows of \<open>ex_out\<close>.
\<close>

lemma order_by_limit_exec_admitted:
  "sql_order_by_limit key n rows (order_by_limit_exec key n rows)"
  unfolding order_by_limit_exec_def by (rule sql_order_by_limit.intros) simp_all

lemma hybrid_search_exec_admitted:
  "hybrid_search pg segments query_text qe mc sw kw thr
     (hybrid_search_exec pg segments query_text qe mc sw kw thr)"
proof (cases "text_to_or_tsquery pg query_text")
  case (Inl e)
  then show ?thesis
    by (simp add: hybrid_search_exec_def hybrid_search.hs_tsquery_raises)
next
  case (Inr q)
  let ?mkr = "max_keyword_rank pg segments q"
  let ?kwl = "map (\<lambda>s. (seg_id s, kw_rank pg q s / ?mkr)) (filter (kw_match pg q) segments)"
  have kwl: "keyword_cte pg q ?mkr segments = Inr ?kwl"
    by (rule keyword_cte_eq[OF max_keyword_rank_nonzero])
  consider (range) "mc * 5 < - 2147483648 \<or> 2147483647 < mc * 5"
    | (neg) "\<not> (mc * 5 < - 2147483648 \<or> 2147483647 < mc * 5)" "mc < 0"
    | (ok) "0 \<le> mc" "mc * 5 \<le> 2147483647"
    by linarith
  then show ?thesis
  proof cases
    case range
    with Inr show ?thesis
      by (simp add: hybrid_search_exec_def hybrid_search.hs_out_of_range[OF Inr])
  next
    case neg
    with Inr show ?thesis
      by (simp add: hybrid_search_exec_def hybrid_search.hs_limit_negative[OF Inr])
  next
    case ok
    let ?segs = "order_by_limit_exec (distance pg qe) (nat (mc * 5))
                   (filter (\<lambda>s. seg_embedding s \<noteq> None \<and> 1 - distance pg qe s > thr) segments)"
    let ?sem = "map (to_candidate pg qe) ?segs"
    let ?segs' = "take (nat mc)
                    (filter (\<lambda>s. seg_embedding s \<noteq> None \<and> kw_match pg q s
                                 \<and> seg_id s \<notin> set (map cand_id ?sem)) segments)"
    let ?kwo = "map (to_candidate pg qe) ?segs'"
    let ?comb = "remdups (?sem @ ?kwo)"
    let ?fused = "left_join_keyword sw kw ?comb ?kwl"
    let ?out = "order_by_limit_exec (\<lambda>r. - combined_score r) (nat mc) ?fused"
    have sem: "semantic_cte pg segments qe mc thr ?sem"
      unfolding semantic_cte_def using order_by_limit_exec_admitted by blast
    have "sql_limit (nat mc)
            (filter (\<lambda>s. seg_embedding s \<noteq> None \<and> kw_match pg q s
                         \<and> seg_id s \<notin> set (map cand_id ?sem)) segments) ?segs'"
      by (rule sql_limit.intros) simp
    then have kwo: "keyword_only_cte pg segments q qe mc ?sem ?kwo"
      unfolding keyword_only_cte_def by blast
    have un: "sql_union ?sem ?kwo ?comb"
      by (rule sql_union.intros) simp_all
    have "hybrid_query pg segments q qe mc sw kw thr ?sem ?kwl ?fused ?out"
      unfolding hybrid_query_def
      using kwl sem kwo un order_by_limit_exec_admitted by blast
    from hybrid_search.hs_rows[OF Inr ok this]
    have "hybrid_search pg segments query_text qe mc sw kw thr (Inr ?out)" .
    moreover have "hybrid_search_exec pg segments query_text qe mc sw kw thr = Inr ?out"
    proof -
      have c1: "(mc * 5 < - 2147483648 \<or> 2147483647 < mc * 5) = False"
        using ok by simp
      have c2: "(mc < 0) = False"
        using ok by simp
      show ?thesis
        by (simp only: hybrid_search_exec_def Inr sum.case c1 c2 if_False kwl Let_def)
    qed
    ultimately show ?thesis by simp
  qed
qed

lemma ex_exec:
  "hybrid_search_exec ex_pg ex_segments (cp ''onboarding'') 0 2 0.7 0.3 0 = Inr ex_out"
proof -
  have "hybrid_search_exec ex_pg ex_segments (cp ''onboarding'') 0 2 0.7 0.3 0 =
     (let semantic = map (to_candidate ex_pg 0)
                       (order_by_limit_exec (distance ex_pg 0) (nat (2 * 5))
                          (filter (\<lambda>s. seg_embedding s \<noteq> None \<and> 1 - distance ex_pg 0 s > 0)
                             ex_segments));
          keyword_only = map (to_candidate ex_pg 0)
                           (take (nat 2)
                              (filter (\<lambda>s. seg_embedding s \<noteq> None
                                           \<and> kw_match ex_pg (TsQuery (cp ''onboarding'')) s
                                           \<and> seg_id s \<notin> set (map cand_id semantic))
                                 ex_segments));
          combined = remdups (semantic @ keyword_only);
          fused = left_join_keyword 0.7 0.3 combined [(1, 1), (3, 1)]
      in Inr (order_by_limit_exec (\<lambda>r. - combined_score r) (nat 2) fused))"
    by (simp add: hybrid_search_exec_def ex_tsquery ex_mkr ex_keyword)
  also have "\<dots> = Inr ex_out"
    by (simp add: order_by_limit_exec_def ex_segments_def ex_simps left_join_keyword_def
        fuse_row_def coalesce_def ex_out_def ex_row_def Let_def del: not_None_eq)
  finally show ?thesis .
qed

subsection \<open>Fused scores and ranking of the returned rows\<close>

lemma hybrid_search_rows_only:
  assumes tsq: "text_to_or_tsquery pg query_text = Inr q"
    and mc: "0 \<le> mc" "mc * 5 \<le> 2147483647"
    and hs: "hybrid_search pg segments query_text qe mc sw kw thr res"
  shows "\<exists>sem kwl fused out. res = Inr out
           \<and> hybrid_query pg segments q qe mc sw kw thr sem kwl fused out"
  using hs
proof (cases rule: hybrid_search.cases)
  case (hs_tsquery_raises e)
  with tsq show ?thesis by simp
next
  case (hs_out_of_range q')
  with mc show ?thesis by linarith
next
  case (hs_limit_negative q')
  with mc show ?thesis by linarith
next
  case (hs_division_raises q' e)
  from hs_division_raises(2) tsq have "q' = q" by simp
  with hs_division_raises(3) show ?thesis
    by (simp add: keyword_cte_eq[OF max_keyword_rank_nonzero])
next
  case (hs_rows q' sem kwl fused out)
  from hs_rows(2) tsq have "q' = q" by simp
  with hs_rows(1,5) show ?thesis by blast
qed

lemma hybrid_query_ranked:
  assumes hq: "hybrid_query pg segments q qe mc sw kw thr sem kwl fused out"
  shows "mset out \<subseteq># mset fused"
    and "length out = min (nat mc) (length fused)"
    and "sorted_wrt (\<lambda>a b. combined_score a \<ge> combined_score b) out"
    and "\<forall>r \<in># mset fused - mset out. \<forall>r' \<in> set out. combined_score r \<le> combined_score r'"
proof -
  from hq have ob: "sql_order_by_limit (\<lambda>r. - combined_score r) (nat mc) fused out"
    unfolding hybrid_query_def by blast
  show "mset out \<subseteq># mset fused" by (rule sql_order_by_limit_subseteq[OF ob])
  show "length out = min (nat mc) (length fused)" by (rule sql_order_by_limit_length_eq[OF ob])
  show "sorted_wrt (\<lambda>a b. combined_score a \<ge> combined_score b) out"
    using sql_order_by_limit_sorted[OF ob] by (rule desc_sorted)
  show "\<forall>r \<in># mset fused - mset out. \<forall>r' \<in> set out. combined_score r \<le> combined_score r'"
  proof (intro ballI)
    fix r r' assume "r \<in># mset fused - mset out" "r' \<in> set out"
    from sql_order_by_limit_rest[OF ob this] show "combined_score r \<le> combined_score r'" by simp
  qed
qed

text \<open>
  A second run on the three segments, with \<open>match_count = 3\<close> and threshold 0.5: the
  segment with id 3 has similarity 0.1 and is not a row of \<open>semantic\<close>; it matches the
  lexical query and is a row of \<open>keyword_only\<close>.
\<close>

lemma ex_semantic_half: "semantic_cte ex_pg ex_segments 0 3 0.5 (take 2 ex_cands)"
  unfolding semantic_cte_def
  by (rule exI[of _ "take 2 ex_segments"], rule conjI,
      rule sql_order_by_limitI[of "take 2 ex_segments"])
     (simp_all add: ex_segments_def ex_cands_def ex_simps del: not_None_eq)

lemma ex_keyword_only_half:
  "keyword_only_cte ex_pg ex_segments (TsQuery (cp ''onboarding'')) 0 3
     (take 2 ex_cands) (drop 2 ex_cands)"
  unfolding keyword_only_cte_def
  by (rule exI[of _ "drop 2 ex_segments"], rule conjI, rule sql_limitI[of "drop 2 ex_segments"])
     (simp_all add: ex_segments_def ex_cands_def ex_simps del: not_None_eq)

lemma ex_hybrid_query_half:
  "hybrid_query ex_pg ex_segments (TsQuery (cp ''onboarding'')) 0 3 0.7 0.3 0.5
     (take 2 ex_cands) [(1, 1), (3, 1)] ex_fused ex_fused"
  unfolding hybrid_query_def
proof (intro conjI)
  show "keyword_cte ex_pg (TsQuery (cp ''onboarding''))
     (max_keyword_rank ex_pg ex_segments (TsQuery (cp ''onboarding''))) ex_segments = Inr [(1, 1), (3, 1)]"
    by (simp only: ex_mkr ex_keyword)
  show "semantic_cte ex_pg ex_segments 0 3 0.5 (take 2 ex_cands)"
    by (rule ex_semantic_half)
  have "sql_union (take 2 ex_cands) (drop 2 ex_cands) ex_cands"
  proof (rule sql_union.intros)
    show "distinct ex_cands" by (simp add: ex_cands_def)
    show "set ex_cands = set (take 2 ex_cands) \<union> set (drop 2 ex_cands)"
      by (rule set_take_drop)
  qed
  with ex_keyword_only_half ex_left_join
  show "\<exists>keyword_only combined.
       keyword_only_cte ex_pg ex_segments (TsQuery (cp ''onboarding'')) 0 3 (take 2 ex_cands)
         keyword_only \<and>
       sql_union (take 2 ex_cands) keyword_only combined \<and>
       ex_fused = left_join_keyword 0.7 0.3 combined [(1, 1), (3, 1)]"
    by metis
  show "sql_order_by_limit (\<lambda>r. - combined_score r) (nat 3) ex_fused ex_fused"
    by (rule sql_order_by_limitI[of ex_fused]) (simp_all add: ex_row_def ex_fused_def)
qed

lemma ex_hybrid_search_half:
  "hybrid_search ex_pg ex_segments (cp ''onboarding'') 0 3 0.7 0.3 0.5 (Inr ex_fused)"
  by (rule hybrid_search.hs_rows[OF ex_tsquery _ _ ex_hybrid_query_half]) simp_all

lemma ex_exec_half:
  "hybrid_search_exec ex_pg ex_segments (cp ''onboarding'') 0 3 0.7 0.3 0.5 = Inr ex_fused"
proof -
  have "hybrid_search_exec ex_pg ex_segments (cp ''onboarding'') 0 3 0.7 0.3 0.5 =
     (let semantic = map (to_candidate ex_pg 0)
                       (order_by_limit_exec (distance ex_pg 0) (nat (3 * 5))
                          (filter (\<lambda>s. seg_embedding s \<noteq> None \<and> 1 - distance ex_pg 0 s > 0.5)
                             ex_segments));
          keyword_only = map (to_candidate ex_pg 0)
                           (take (nat 3)
                              (filter (\<lambda>s. seg_embedding s \<noteq> None
                                           \<and> kw_match ex_pg (TsQuery (cp ''onboarding'')) s
                                           \<and> seg_id s \<notin> set (map cand_id semantic))
                                 ex_segments));
          combined = remdups (semantic @ keyword_only);
          fused = left_join_keyword 0.7 0.3 combined [(1, 1), (3, 1)]
      in Inr (order_by_limit_exec (\<lambda>r. - combined_score r) (nat 3) fused))"
    by (simp add: hybrid_search_exec_def ex_tsquery ex_mkr ex_keyword)
  also have "\<dots> = Inr ex_fused"
    by (simp add: order_by_limit_exec_def ex_segments_def ex_simps left_join_keyword_def
        fuse_row_def coalesce_def ex_fused_def ex_row_def Let_def del: not_None_eq)
  finally show ?thesis .
qed

text \<open>
  Claim C1, as stated, fails: a score is missing on the lexical path only.  A candidate that
  the lexical path alone finds is selected in \<open>keyword_only\<close> together with its own
  cosine similarity, and this similarity enters the fused score; it is not treated as 0.
  In the second run the segment with id 3 is not a row of \<open>semantic\<close>, and it is returned
  with the semantic score 0.1 and the fused score \<open>0.1 * 0.7 + 1 * 0.3 = 0.37\<close>, where a
  missing semantic score treated as 0 gives \<open>0 * 0.7 + 1 * 0.3 = 0.3\<close>.
\<close>

theorem hybrid_search_lexical_only_keeps_similarity:
  "hybrid_search ex_pg ex_segments (cp ''onboarding'') 0 3 0.7 0.3 0.5 (Inr ex_fused)
   \<and> hybrid_search_exec ex_pg ex_segments (cp ''onboarding'') 0 3 0.7 0.3 0.5 = Inr ex_fused
   \<and> hybrid_query ex_pg ex_segments (TsQuery (cp ''onboarding'')) 0 3 0.7 0.3 0.5
       (take 2 ex_cands) [(1, 1), (3, 1)] ex_fused ex_fused
   \<and> 3 \<notin> cand_id ` set (take 2 ex_cands)
   \<and> ex_fused ! 2 = ex_row 3 ''onboarding teams'' 0.1 1 0.37
   \<and> semantic_similarity (ex_fused ! 2) = 0.1
   \<and> keyword_rank (ex_fused ! 2) = 1
   \<and> combined_score (ex_fused ! 2) = 0.37
   \<and> 0 * 0.7 + keyword_rank (ex_fused ! 2) * 0.3 = (0.3 :: real)
   \<and> combined_score (ex_fused ! 2) \<noteq> 0 * 0.7 + keyword_rank (ex_fused ! 2) * 0.3"
proof -
  have a: "3 \<notin> cand_id ` set (take 2 ex_cands)" by (simp add: ex_cands_def)
  have b: "ex_fused ! 2 = ex_row 3 ''onboarding teams'' 0.1 1 0.37" by (simp add: ex_fused_def)
  have c: "semantic_similarity (ex_fused ! 2) = 0.1" "keyword_rank (ex_fused ! 2) = 1"
    "combined_score (ex_fused ! 2) = 0.37"
    "0 * 0.7 + keyword_rank (ex_fused ! 2) * 0.3 = (0.3 :: real)"
    "combined_score (ex_fused ! 2) \<noteq> 0 * 0.7 + keyword_rank (ex_fused ! 2) * 0.3"
    by (simp_all add: b ex_row_def)
  from ex_hybrid_search_half ex_exec_half ex_hybrid_query_half a b c show ?thesis
    by (intro conjI)
qed

text \<open>
  Claim C1, amended.  A call of \<open>hybrid_search\<close> whose lexical query is built and whose
  \<open>match_count\<close> is in range returns a list of rows, and never an error.  Every fused
  candidate, so every returned row, belongs to a segment of the table with an embedding;
  its semantic score is 1 minus the cosine distance of that segment, also when the
  lexical path alone found it (the semantic score is never missing); its lexical score
  is the normalized rank of the segment if the segment matches the lexical query and 0 if
  it does not (the missing score of the left join); and its fused score is semantic score
  times semantic weight plus lexical score times lexical weight.  The returned list is in
  descending order of fused score and consists of fused candidates; it has \<open>match_count\<close>
  rows, or all the fused candidates when there are fewer; and no candidate left out has a
  higher fused score than a returned row.  \<open>id\<close> is the primary key of the table.
\<close>

theorem hybrid_search_fused_scores_ranked:
  assumes tsq: "text_to_or_tsquery pg query_text = Inr q"
    and mc: "0 \<le> mc" "mc * 5 \<le> 2147483647"
    and pk: "distinct (map seg_id segments)"
  shows "(\<exists>out. hybrid_search_exec pg segments query_text qe mc sw kw thr = Inr out
              \<and> hybrid_search pg segments query_text qe mc sw kw thr (Inr out))
       \<and> (\<forall>res. hybrid_search pg segments query_text qe mc sw kw thr res \<longrightarrow>
            (\<exists>sem kwl fused out.
                res = Inr out
              \<and> hybrid_query pg segments q qe mc sw kw thr sem kwl fused out
              \<and> (\<forall>r \<in> set fused. \<exists>s \<in> set segments. \<exists>e.
                     seg_id s = row_id r \<and> seg_embedding s = Some e
                   \<and> semantic_similarity r = 1 - pg_distance pg e qe
                   \<and> keyword_rank r =
                       (if kw_match pg q s
                        then kw_rank pg q s / max_keyword_rank pg segments q else 0)
                   \<and> combined_score r = semantic_similarity r * sw + keyword_rank r * kw)
              \<and> mset out \<subseteq># mset fused
              \<and> length out = min (nat mc) (length fused)
              \<and> sorted_wrt (\<lambda>a b. combined_score a \<ge> combined_score b) out
              \<and> (\<forall>r \<in># mset fused - mset out. \<forall>r' \<in> set out.
                    combined_score r \<le> combined_score r')))"
proof (intro conjI allI impI)
  have adm: "hybrid_search pg segments query_text qe mc sw kw thr
               (hybrid_search_exec pg segments query_text qe mc sw kw thr)"
    by (rule hybrid_search_exec_admitted)
  from hybrid_search_rows_only[OF tsq mc adm]
  obtain out where "hybrid_search_exec pg segments query_text qe mc sw kw thr = Inr out"
    by blast
  with adm show "\<exists>out. hybrid_search_exec pg segments query_text qe mc sw kw thr = Inr out
              \<and> hybrid_search pg segments query_text qe mc sw kw thr (Inr out)"
    by simp
next
  fix res
  assume hs: "hybrid_search pg segments query_text qe mc sw kw thr res"
  from hybrid_search_rows_only[OF tsq mc hs]
  obtain sem kwl fused out where res: "res = Inr out"
    and hq: "hybrid_query pg segments q qe mc sw kw thr sem kwl fused out"
    by blast
  have rows: "\<forall>r \<in> set fused. \<exists>s \<in> set segments. \<exists>e.
                     seg_id s = row_id r \<and> seg_embedding s = Some e
                   \<and> semantic_similarity r = 1 - pg_distance pg e qe
                   \<and> keyword_rank r =
                       (if kw_match pg q s
                        then kw_rank pg q s / max_keyword_rank pg segments q else 0)
                   \<and> combined_score r = semantic_similarity r * sw + keyword_rank r * kw"
  proof
    fix r assume "r \<in> set fused"
    from fused_row_segment[OF hq pk this]
    show "\<exists>s \<in> set segments. \<exists>e.
                     seg_id s = row_id r \<and> seg_embedding s = Some e
                   \<and> semantic_similarity r = 1 - pg_distance pg e qe
                   \<and> keyword_rank r =
                       (if kw_match pg q s
                        then kw_rank pg q s / max_keyword_rank pg segments q else 0)
                   \<and> combined_score r = semantic_similarity r * sw + keyword_rank r * kw"
      by blast
  qed
  from res hq rows hybrid_query_ranked[OF hq]
  show "\<exists>sem kwl fused out.
                res = Inr out
              \<and> hybrid_query pg segments q qe mc sw kw thr sem kwl fused out
              \<and> (\<forall>r \<in> set fused. \<exists>s \<in> set segments. \<exists>e.
                     seg_id s = row_id r \<and> seg_embedding s = Some e
                   \<and> semantic_similarity r = 1 - pg_distance pg e qe
                   \<and> keyword_rank r =
                       (if kw_match pg q s
                        then kw_rank pg q s / max_keyword_rank pg segments q else 0)
                   \<and> combined_score r = semantic_similarity r * sw + keyword_rank r * kw)
              \<and> mset out \<subseteq># mset fused
              \<and> length out = min (nat mc) (length fused)
              \<and> sorted_wrt (\<lambda>a b. combined_score a \<ge> combined_score b) out
              \<and> (\<forall>r \<in># mset fused - mset out. \<forall>r' \<in> set out.
                    combined_score r \<le> combined_score r')"
    by blast
qed

theorem hybrid_search_fused_scores_ranked_witness:
  "text_to_or_tsquery ex_pg (cp ''onboarding'') = Inr (TsQuery (cp ''onboarding''))
   \<and> distinct (map seg_id ex_segments)
   \<and> hybrid_search_exec ex_pg ex_segments (cp ''onboarding'') 0 2 0.7 0.3 0 = Inr ex_out
   \<and> hybrid_search ex_pg ex_segments (cp ''onboarding'') 0 2 0.7 0.3 0 (Inr ex_out)
   \<and> (\<exists>sem kwl fused.
         hybrid_query ex_pg ex_segments (TsQuery (cp ''onboarding'')) 0 2 0.7 0.3 0
           sem kwl fused ex_out
       \<and> mset ex_out \<subseteq># mset fused
       \<and> length ex_out = min (nat 2) (length fused)
       \<and> (\<exists>s \<in> set ex_segments. \<exists>e.
             seg_id s = row_id (ex_out ! 1) \<and> seg_embedding s = Some e
           \<and> semantic_similarity (ex_out ! 1) = 1 - pg_distance ex_pg e 0
           \<and> keyword_rank (ex_out ! 1) =
               (if kw_match ex_pg (TsQuery (cp ''onboarding'')) s
                then kw_rank ex_pg (TsQuery (cp ''onboarding'')) s
                       / max_keyword_rank ex_pg ex_segments (TsQuery (cp ''onboarding'')) else 0)
           \<and> combined_score (ex_out ! 1)
               = semantic_similarity (ex_out ! 1) * 0.7 + keyword_rank (ex_out ! 1) * 0.3))
   \<and> sorted_wrt (\<lambda>a b. combined_score a \<ge> combined_score b) ex_out"
proof -
  have r: "(0 :: int) \<le> 2" "(2 :: int) * 5 \<le> 2147483647" by simp_all
  note t = hybrid_search_fused_scores_ranked
             [OF ex_tsquery r ex_pk, of 0 "0.7" "0.3" 0, THEN conjunct2, rule_format,
              OF ex_hybrid_search]
  then obtain sem kwl fused out where o: "Inr ex_out = (Inr out :: pg_error + unit search_row list)"
    and hq: "hybrid_query ex_pg ex_segments (TsQuery (cp ''onboarding'')) 0 2 0.7 0.3 0
               sem kwl fused out"
    and rows: "\<forall>r \<in> set fused. \<exists>s \<in> set ex_segments. \<exists>e.
                     seg_id s = row_id r \<and> seg_embedding s = Some e
                   \<and> semantic_similarity r = 1 - pg_distance ex_pg e 0
                   \<and> keyword_rank r =
                       (if kw_match ex_pg (TsQuery (cp ''onboarding'')) s
                        then kw_rank ex_pg (TsQuery (cp ''onboarding'')) s
                               / max_keyword_rank ex_pg ex_segments (TsQuery (cp ''onboarding''))
                        else 0)
                   \<and> combined_score r = semantic_similarity r * 0.7 + keyword_rank r * 0.3"
    and sub: "mset out \<subseteq># mset fused"
    and len: "length out = min (nat 2) (length fused)"
    and srt: "sorted_wrt (\<lambda>a b. combined_score a \<ge> combined_score b) out"
    by blast
  from o have out: "out = ex_out" by simp
  have "ex_out ! 1 \<in> set ex_out" by (simp add: ex_out_def)
  with sub have "ex_out ! 1 \<in> set fused"
    unfolding out by (rule subseteq_mset_setD)
  with rows have row: "\<exists>s \<in> set ex_segments. \<exists>e.
             seg_id s = row_id (ex_out ! 1) \<and> seg_embedding s = Some e
           \<and> semantic_similarity (ex_out ! 1) = 1 - pg_distance ex_pg e 0
           \<and> keyword_rank (ex_out ! 1) =
               (if kw_match ex_pg (TsQuery (cp ''onboarding'')) s
                then kw_rank ex_pg (TsQuery (cp ''onboarding'')) s
                       / max_keyword_rank ex_pg ex_segments (TsQuery (cp ''onboarding'')) else 0)
           \<and> combined_score (ex_out ! 1)
               = semantic_similarity (ex_out ! 1) * 0.7 + keyword_rank (ex_out ! 1) * 0.3"
    by (rule bspec)
  from hq sub len row have ex: "\<exists>sem kwl fused.
         hybrid_query ex_pg ex_segments (TsQuery (cp ''onboarding'')) 0 2 0.7 0.3 0
           sem kwl fused ex_out
       \<and> mset ex_out \<subseteq># mset fused
       \<and> length ex_out = min (nat 2) (length fused)
       \<and> (\<exists>s \<in> set ex_segments. \<exists>e.
             seg_id s = row_id (ex_out ! 1) \<and> seg_embedding s = Some e
           \<and> semantic_similarity (ex_out ! 1) = 1 - pg_distance ex_pg e 0
           \<and> keyword_rank (ex_out ! 1) =
               (if kw_match ex_pg (TsQuery (cp ''onboarding'')) s
                then kw_rank ex_pg (TsQuery (cp ''onboarding'')) s
                       / max_keyword_rank ex_pg ex_segments (TsQuery (cp ''onboarding'')) else 0)
           \<and> combined_score (ex_out ! 1)
               = semantic_similarity (ex_out ! 1) * 0.7 + keyword_rank (ex_out ! 1) * 0.3)"
    unfolding out by blast
  from srt have srt': "sorted_wrt (\<lambda>a b. combined_score a \<ge> combined_score b) ex_out"
    unfolding out .
  from ex_tsquery ex_pk ex_exec ex_hybrid_search ex srt' show ?thesis
    by (intro conjI)
qed

section \<open>Properties of searchSegments\<close>

lemma match_segments_ranked:
  assumes "match_segments pg segments qe thr mc (Inr rows)"
  shows "sorted_wrt (\<lambda>a b. sim a \<ge> sim b) rows \<and> int (length rows) \<le> mc"
  using assms
proof (cases rule: match_segments.cases)
  case (ms_rows segs)
  have "sorted (map (distance pg qe) segs)"
    by (rule sql_order_by_limit_sorted[OF ms_rows(3)])
  then have "sorted_wrt (\<lambda>s s'. distance pg qe s \<le> distance pg qe s') segs"
    by (simp add: sorted_map)
  then have "sorted_wrt (\<lambda>a b. sim a \<ge> sim b) (map (to_candidate pg qe) segs)"
    by (simp add: sorted_wrt_map to_candidate_def)
  moreover have "int (length segs) \<le> mc"
    using sql_order_by_limit_length[OF ms_rows(3)] ms_rows(2) by simp
  ultimately show ?thesis using ms_rows(1) by simp
qed

text \<open>
  Claim C6, as stated, fails.  \<open>searchSegments\<close> falls back only when the message of the
  error contains \<open>hybrid_search\<close>.  When the lexical helper is missing from the database
  the call fails with \<open>function text_to_or_tsquery(text) does not exist\<close>, and
  \<open>searchSegments\<close> throws although \<open>match_segments\<close> would have answered.
\<close>

theorem searchSegments_throws_on_lexical_failure:
  "searchSegments (ex_failed ''function text_to_or_tsquery(text) does not exist'') ex_fallback
     = Inl ''Search failed: function text_to_or_tsquery(text) does not exist''"
  by (simp add: searchSegments_def ex_failed_def)

text \<open>
  Claim C6, amended.  When the \<open>hybrid_search\<close> call fails with a message that contains
  \<open>hybrid_search\<close> (the function is not in the database) and the \<open>match_segments\<close>
  call succeeds, \<open>searchSegments\<close> returns the rows of \<open>match_segments\<close> (none when
  the data is null) and does not throw; these rows are in descending order of semantic
  similarity, at most \<open>match_count\<close>.  Every other error of \<open>hybrid_search\<close>, and an
  error of the fallback call, is thrown as \<open>Search failed: \<close> followed by its message.
  Without an error the rows of \<open>hybrid_search\<close> are returned.
\<close>

theorem searchSegments_fallback_only_when_missing:
  "(rpc_error hybrid = None \<longrightarrow>
      searchSegments hybrid fallback
        = Inr (HybridRows (case rpc_data hybrid of None \<Rightarrow> [] | Some d \<Rightarrow> d)))
   \<and> (\<forall>m. rpc_error hybrid = Some m \<and> \<not> str_includes m ''hybrid_search'' \<longrightarrow>
          searchSegments hybrid fallback = Inl (''Search failed: '' @ m))
   \<and> (\<forall>m fm. rpc_error hybrid = Some m \<and> str_includes m ''hybrid_search''
            \<and> rpc_error fallback = Some fm \<longrightarrow>
          searchSegments hybrid fallback = Inl (''Search failed: '' @ fm))
   \<and> (\<forall>m. rpc_error hybrid = Some m \<and> str_includes m ''hybrid_search''
            \<and> rpc_error fallback = None \<longrightarrow>
          searchSegments hybrid fallback
            = Inr (MatchRows (case rpc_data fallback of None \<Rightarrow> [] | Some d \<Rightarrow> d)))
   \<and> (\<forall>m rows. rpc_error hybrid = Some m \<and> str_includes m ''hybrid_search''
            \<and> rpc_error fallback = None \<and> rpc_data fallback = Some rows
            \<and> match_segments pg segments qe thr mc (Inr rows) \<longrightarrow>
          searchSegments hybrid fallback = Inr (MatchRows rows)
        \<and> sorted_wrt (\<lambda>a b. sim a \<ge> sim b) rows \<and> int (length rows) \<le> mc)"
  using match_segments_ranked[of pg segments qe thr mc]
  by (simp add: searchSegments_def)

lemma ex_match_segments: "match_segments ex_pg ex_segments 0 0 2 (Inr ex_match_rows)"
proof -
  have "sql_order_by_limit (distance ex_pg 0) (nat 2)
          (filter (\<lambda>s. seg_embedding s \<noteq> None \<and> 1 - distance ex_pg 0 s > 0) ex_segments)
          (take 2 ex_segments)"
    by (rule sql_order_by_limitI[of ex_segments])
       (simp_all add: ex_segments_def ex_simps del: not_None_eq)
  from match_segments.ms_rows[OF _ this]
  have "match_segments ex_pg ex_segments 0 0 2
          (Inr (map (to_candidate ex_pg 0) (take 2 ex_segments)))"
    by simp
  also have "map (to_candidate ex_pg 0) (take 2 ex_segments) = ex_match_rows"
    by (simp add: ex_segments_def ex_match_rows_def ex_simps)
  finally show ?thesis .
qed

theorem searchSegments_fallback_only_when_missing_witness:
  "str_includes ''Could not find the function public.hybrid_search in the schema cache''
     ''hybrid_search''
   \<and> match_segments ex_pg ex_segments 0 0 2 (Inr ex_match_rows)
   \<and> searchSegments
        (ex_failed ''Could not find the function public.hybrid_search in the schema cache'')
        ex_fallback
      = Inr (MatchRows ex_match_rows)
   \<and> sorted_wrt (\<lambda>a b. sim a \<ge> sim b) ex_match_rows
   \<and> int (length ex_match_rows) \<le> 2"
proof -
  have i: "str_includes ''Could not find the function public.hybrid_search in the schema cache''
     ''hybrid_search''"
    by simp
  have e: "rpc_error (ex_failed ''Could not find the function public.hybrid_search in the schema cache'')
             = Some ''Could not find the function public.hybrid_search in the schema cache''"
    by (simp add: ex_failed_def)
  have f: "rpc_error ex_fallback = None" "rpc_data ex_fallback = Some ex_match_rows"
    by (simp_all add: ex_fallback_def)
  from searchSegments_fallback_only_when_missing
         [of "ex_failed ''Could not find the function public.hybrid_search in the schema cache''"
             ex_fallback ex_pg ex_segments 0 0 2]
       i e f ex_match_segments
  have "searchSegments
        (ex_failed ''Could not find the function public.hybrid_search in the schema cache'')
        ex_fallback
      = Inr (MatchRows ex_match_rows)
   \<and> sorted_wrt (\<lambda>a b. sim a \<ge> sim b) ex_match_rows
   \<and> int (length ex_match_rows) \<le> 2"
    by blast
  with i ex_match_segments show ?thesis by blast
qed

end
